theory Spec2Isabelle
  imports Complex_Main
begin

section \<open>Neighbourhood-based collaborative filtering: the class uuCF\<close>

text \<open>
  The class \<open>uuCF\<close> of the notebooks \<open>Bach_Paper_Testing.ipynb\<close>, \<open>Bach_Paper.ipynb\<close> and
  \<open>Book_NeighborhoodBaseCF.ipynb\<close>.  A row of \<open>Y_data\<close> is \<open>[user_id, item_id, rating]\<close>;
  identifiers are natural numbers.  Finite floating-point numbers are read as the real
  numbers they denote and rounding is left out; the one place where the source produces a
  non-finite value from finite ones (the division of the two bin counts in \<open>fit\<close>) is
  modelled with the outcome type \<open>npfloat\<close>.
\<close>

subsection \<open>Errors and numbers\<close>

datatype error = ValueError | IndexError | TypeError

datatype npfloat = Fin real | PosInf | NegInf | NaN

definition np_divide :: "real \<Rightarrow> real \<Rightarrow> npfloat" where
  \<comment> \<open>numpy's \<open>/\<close> on floats: a zero divisor gives nan or an infinity, with a warning only.\<close>
  "np_divide x y =
     (if y \<noteq> 0 then Fin (x / y)
      else if x = 0 then NaN
      else if 0 < x then PosInf else NegInf)"

definition float_max :: real where
  "float_max = (2 - 1 / 2 ^ 52) * 2 ^ 1023"

fun nan_to_num :: "npfloat \<Rightarrow> real" where
  "nan_to_num (Fin x) = x"
| "nan_to_num NaN = 0"
| "nan_to_num PosInf = float_max"
| "nan_to_num NegInf = - float_max"

subsection \<open>The rating array\<close>

text \<open>
  \<open>Y_data\<close> is one numpy array, so all its columns have one dtype.  The notebooks pass
  \<open>rating_base.to_numpy()\<close> of a table of integers, an int64 array; an array of floats is the
  other case.  Storing a float into an int64 array (\<open>Ybar[:, 2] = ...\<close> on the copy of
  \<open>Y_data\<close>) truncates it towards zero.
\<close>

datatype ndarray = Int64 "(nat \<times> nat \<times> int) list" | Float64 "(nat \<times> nat \<times> real) list"

fun rows :: "ndarray \<Rightarrow> (nat \<times> nat \<times> real) list" where
  "rows (Int64 xs) = map (\<lambda>(u, i, r). (u, i, real_of_int r)) xs"
| "rows (Float64 xs) = xs"

definition trunc :: "real \<Rightarrow> int" where
  "trunc x = (if 0 \<le> x then \<lfloor>x\<rfloor> else \<lceil>x\<rceil>)"

fun setitem_cast :: "ndarray \<Rightarrow> real \<Rightarrow> real" where
  "setitem_cast (Int64 xs) x = real_of_int (trunc x)"
| "setitem_cast (Float64 xs) x = x"

definition user_of :: "nat \<times> nat \<times> real \<Rightarrow> nat" where
  "user_of row = fst row"

definition item_of :: "nat \<times> nat \<times> real \<Rightarrow> nat" where
  "item_of row = fst (snd row)"

definition rating_of :: "nat \<times> nat \<times> real \<Rightarrow> real" where
  "rating_of row = snd (snd row)"

definition amax :: "nat list \<Rightarrow> nat" where
  \<comment> \<open>\<open>np.max\<close> of a non-empty array of identifiers (the empty case raises, see \<open>uuCF_init\<close>).\<close>
  "amax xs = fold max xs 0"

definition bincount :: "nat list \<Rightarrow> nat list" where
  "bincount xs = map (\<lambda>n. count_list xs n) [0..<Suc (amax xs)]"

definition bincount_weights :: "nat list \<Rightarrow> real list \<Rightarrow> real list" where
  "bincount_weights xs ws =
     map (\<lambda>n. sum_list (map snd (filter (\<lambda>p. fst p = n) (zip xs ws)))) [0..<Suc (amax xs)]"

subsection \<open>The sparse matrix\<close>

text \<open>
  \<open>sparse.coo_matrix((data, (row, col)), shape).tocsr()\<close>: the stored entries of the CSR
  matrix are the (row, column) pairs of the triplets, and triplets with the same pair are
  added up.  Reading a position that is not stored gives 0.
\<close>

type_synonym csr = "nat \<times> nat \<rightharpoonup> real"

definition coo_add :: "(nat \<times> nat) \<times> real \<Rightarrow> csr \<Rightarrow> csr" where
  "coo_add e m = (case m (fst e) of None \<Rightarrow> m(fst e \<mapsto> snd e) | Some w \<Rightarrow> m(fst e \<mapsto> w + snd e))"

definition coo_tocsr :: "((nat \<times> nat) \<times> real) list \<Rightarrow> csr" where
  "coo_tocsr es = fold coo_add es Map.empty"

definition csr_get :: "csr \<Rightarrow> nat \<Rightarrow> nat \<Rightarrow> real" where
  "csr_get m r c = (case m (r, c) of None \<Rightarrow> 0 | Some v \<Rightarrow> v)"

subsection \<open>The model\<close>

record uuCF =
  Y_data :: ndarray
  k :: nat
  sim_func :: "real list list \<Rightarrow> real list list \<Rightarrow> real list list"
  Ybar :: "csr option"
  n_users :: nat
  n_items :: nat
  mu :: "real list option"
  S :: "real list list option"

definition uuCF_init ::
  "ndarray \<Rightarrow> nat \<Rightarrow> (real list list \<Rightarrow> real list list \<Rightarrow> real list list) \<Rightarrow> error + uuCF" where
  "uuCF_init Y kk sf =
     (if rows Y = [] then Inl ValueError
      else Inr \<lparr> Y_data = Y, k = kk, sim_func = sf, Ybar = None,
                 n_users = Suc (amax (map user_of (rows Y))),
                 n_items = Suc (amax (map item_of (rows Y))),
                 mu = None, S = None \<rparr>)"

definition mean_rating :: "(nat \<times> nat \<times> real) list \<Rightarrow> nat \<Rightarrow> real" where
  \<comment> \<open>the mean of the ratings of user \<open>n\<close>, 0 when there is none\<close>
  "mean_rating rs n =
     (let xs = map rating_of (filter (\<lambda>row. user_of row = n) rs)
      in if xs = [] then 0 else sum_list xs / real (length xs))"

definition user_means :: "(nat \<times> nat \<times> real) list \<Rightarrow> real list" where
  \<comment> \<open>\<open>np.nan_to_num(np.bincount(users, weights=ratings) / np.bincount(users))\<close>\<close>
  "user_means rs =
     map nan_to_num
       (map2 np_divide (bincount_weights (map user_of rs) (map rating_of rs))
                       (map real (bincount (map user_of rs))))"

definition centered :: "ndarray \<Rightarrow> real list \<Rightarrow> (nat \<times> nat \<times> real) list" where
  \<comment> \<open>\<open>Ybar[:, 2] = Y_data[:, 2] - mu[users]\<close>, stored in the copy of \<open>Y_data\<close>\<close>
  "centered Y mus =
     map (\<lambda>row. (user_of row, item_of row, setitem_cast Y (rating_of row - mus ! user_of row)))
       (rows Y)"

definition to_coo :: "(nat \<times> nat \<times> real) list \<Rightarrow> ((nat \<times> nat) \<times> real) list" where
  \<comment> \<open>data \<open>Ybar[:, 2]\<close>, rows \<open>Ybar[:, 1]\<close> (items), columns \<open>Ybar[:, 0]\<close> (users)\<close>
  "to_coo yb = map (\<lambda>row. ((item_of row, user_of row), rating_of row)) yb"

definition column :: "csr \<Rightarrow> nat \<Rightarrow> nat \<Rightarrow> real list" where
  \<comment> \<open>the column of user \<open>u\<close> with every position written out, one entry per item\<close>
  "column m nrows u = map (\<lambda>i. csr_get m i u) [0..<nrows]"

definition transpose_dense :: "csr \<Rightarrow> nat \<Rightarrow> nat \<Rightarrow> real list list" where
  \<comment> \<open>\<open>Ybar.T\<close>: one row per user\<close>
  "transpose_dense m nrows ncols = map (column m nrows) [0..<ncols]"

definition build ::
  "uuCF \<Rightarrow> real list \<Rightarrow> (nat \<times> nat \<times> real) list \<Rightarrow> uuCF" where
  \<comment> \<open>the end of \<open>fit\<close>, the same in every notebook: the sparse matrix and the similarities\<close>
  "build m mus yb =
     (let mat = coo_tocsr (to_coo yb);
          d = transpose_dense mat (n_items m) (n_users m)
      in m \<lparr> Ybar := Some mat, mu := Some mus, S := Some (sim_func m d d) \<rparr>)"

definition fit :: "uuCF \<Rightarrow> uuCF" where
  "fit m =
     (let mus = user_means (rows (Y_data m))
      in build m mus (centered (Y_data m) mus))"


subsection \<open>The loop of the book's notebook\<close>

text \<open>
  \<open>Book_NeighborhoodBaseCF.ipynb\<close> computes the means in a loop over the users, with the
  guard \<open>np.mean(ratings) if ids.size > 0 else 0\<close>, and writes the centred ratings of one
  user at a time into the copy of \<open>Y_data\<close>.
\<close>

definition where_eq :: "nat list \<Rightarrow> nat \<Rightarrow> nat list" where
  \<comment> \<open>\<open>np.where(xs == n)[0]\<close>: the positions that hold \<open>n\<close>, ascending\<close>
  "where_eq xs n = filter (\<lambda>j. xs ! j = n) [0..<length xs]"

definition fit_step ::
  "ndarray \<Rightarrow> nat \<Rightarrow> real list \<times> (nat \<times> nat \<times> real) list
     \<Rightarrow> real list \<times> (nat \<times> nat \<times> real) list" where
  "fit_step Y n st =
     (let rs = rows Y;
          ids = where_eq (map user_of rs) n;
          ratings = map (\<lambda>j. rating_of (rs ! j)) ids;
          mean = (if ids \<noteq> [] then sum_list ratings / real (length ratings) else 0)
      in ((fst st)[n := mean],
          fold (\<lambda>j yb. yb[j := (user_of (yb ! j), item_of (yb ! j),
                                 setitem_cast Y (rating_of (rs ! j) - mean))]) ids (snd st)))"

definition fit_book :: "uuCF \<Rightarrow> uuCF" where
  "fit_book m =
     (let st = fold (fit_step (Y_data m)) [0..<n_users m]
                 (replicate (n_users m) 0, rows (Y_data m))
      in build m (fst st) (snd st))"

subsection \<open>Prediction\<close>

definition eps :: real where
  "eps = 1 / 10 ^ 8"

definition argsort :: "real list \<Rightarrow> nat list" where
  \<comment> \<open>\<open>np.argsort\<close>: the positions in ascending order of their values; equal values are
      kept in their order here, numpy's default sort promises no order for them\<close>
  "argsort xs = sort_key (\<lambda>j. xs ! j) [0..<length xs]"

definition take_last :: "nat \<Rightarrow> 'a list \<Rightarrow> 'a list" where
  \<comment> \<open>the slice \<open>xs[-n:]\<close>; \<open>xs[-0:]\<close> is \<open>xs[0:]\<close>, the whole list\<close>
  "take_last n xs = (if n = 0 then xs else drop (length xs - n) xs)"

definition users_rated_item :: "uuCF \<Rightarrow> nat \<Rightarrow> nat list" where
  "users_rated_item m item_id =
     (let rs = rows (Y_data m);
          item_ids = where_eq (map item_of rs) item_id
      in map (\<lambda>j. user_of (rs ! j)) item_ids)"

definition nearest_neighbors :: "nat \<Rightarrow> real list \<Rightarrow> nat list" where
  \<comment> \<open>\<open>np.argsort(sim_scores)[-self.k:]\<close>, positions in \<open>users_rated_item\<close>\<close>
  "nearest_neighbors kk sim_scores = take_last kk (argsort sim_scores)"

definition predict_rating :: "uuCF \<Rightarrow> nat \<Rightarrow> nat \<Rightarrow> error + real" where
  \<comment> \<open>\<open>predict_rating\<close> of the paper's notebooks, \<open>pred\<close> of the book's.  The product of the
      1 x n sparse row \<open>ratings_by_neighbors\<close> with the vector \<open>nearest_sim_scores\<close> is the
      matrix-vector product, whose one entry \<open>.sum()\<close> returns.\<close>
  "predict_rating m user_id item_id =
     (case S m of None \<Rightarrow> Inl TypeError | Some sm \<Rightarrow>
      case Ybar m of None \<Rightarrow> Inl TypeError | Some mat \<Rightarrow>
      case mu m of None \<Rightarrow> Inl TypeError | Some mus \<Rightarrow>
        let raters = users_rated_item m item_id
        in if \<not> (user_id < length sm \<and> (\<forall>u \<in> set raters. u < length (sm ! user_id)))
           then Inl IndexError
           else
             let sim_scores = map (\<lambda>u. sm ! user_id ! u) raters;
                 nn = nearest_neighbors (k m) sim_scores;
                 nearest_sim_scores = map (\<lambda>j. sim_scores ! j) nn;
                 cols = map (\<lambda>j. raters ! j) nn
             in if \<not> (item_id < n_items m \<and> (\<forall>c \<in> set cols. c < n_users m))
                then Inl IndexError
                else
                  let ratings_by_neighbors = map (\<lambda>c. csr_get mat item_id c) cols;
                      prediction =
                        sum_list (map2 (\<lambda>a b. a * b) ratings_by_neighbors nearest_sim_scores)
                          / (sum_list (map abs nearest_sim_scores) + eps)
                  in if user_id < length mus then Inr (prediction + mus ! user_id)
                     else Inl IndexError)"

text \<open>The pieces of \<open>predict_rating\<close> by name, for the statements below.\<close>

definition sim_scores :: "uuCF \<Rightarrow> nat \<Rightarrow> nat \<Rightarrow> real list" where
  \<comment> \<open>\<open>self.S[user_id, users_rated_item]\<close>\<close>
  "sim_scores m user_id item_id =
     (case S m of None \<Rightarrow> []
      | Some sm \<Rightarrow> map (\<lambda>u. sm ! user_id ! u) (users_rated_item m item_id))"

definition neighbors :: "uuCF \<Rightarrow> nat \<Rightarrow> nat \<Rightarrow> nat list" where
  \<comment> \<open>\<open>users_rated_item[nearest_neighbors]\<close>: the users the prediction is computed from\<close>
  "neighbors m user_id item_id =
     map (\<lambda>j. users_rated_item m item_id ! j)
       (nearest_neighbors (k m) (sim_scores m user_id item_id))"

subsection \<open>Recommendation\<close>

fun collect :: "(error + 'a) list \<Rightarrow> error + 'a list" where
  "collect [] = Inr []"
| "collect (x # xs) =
     (case x of Inl e \<Rightarrow> Inl e
      | Inr v \<Rightarrow> (case collect xs of Inl e \<Rightarrow> Inl e | Inr vs \<Rightarrow> Inr (v # vs)))"

definition rated_items :: "uuCF \<Rightarrow> nat \<Rightarrow> nat list" where
  "rated_items m user_id =
     map item_of (filter (\<lambda>row. user_of row = user_id) (rows (Y_data m)))"

definition unrated_items :: "uuCF \<Rightarrow> nat \<Rightarrow> nat list" where
  \<comment> \<open>\<open>list(set(range(n_items)) - rated_items)\<close>, taken in ascending order\<close>
  "unrated_items m user_id =
     filter (\<lambda>i. i \<notin> set (rated_items m user_id)) [0..<n_items m]"

definition scored :: "uuCF \<Rightarrow> nat \<Rightarrow> nat \<Rightarrow> error + nat \<times> real" where
  "scored m user_id item_id =
     (case predict_rating m user_id item_id of Inl e \<Rightarrow> Inl e | Inr p \<Rightarrow> Inr (item_id, p))"

definition recommend :: "uuCF \<Rightarrow> nat \<Rightarrow> nat \<Rightarrow> error + nat list" where
  \<comment> \<open>\<open>sorted(predictions, key=lambda x: x[1], reverse=True)[:top_k]\<close>: descending by the
      prediction, equal predictions in the order of \<open>predictions\<close>\<close>
  "recommend m user_id top_k =
     (case collect (map (scored m user_id) (unrated_items m user_id)) of
        Inl e \<Rightarrow> Inl e
      | Inr predictions \<Rightarrow>
          Inr (map fst (take top_k (sort_key (\<lambda>x. - snd x) predictions))))"

subsection \<open>Cosine similarity\<close>

definition dot :: "real list \<Rightarrow> real list \<Rightarrow> real" where
  "dot x y = sum_list (map2 (\<lambda>a b. a * b) x y)"

definition norm2 :: "real list \<Rightarrow> real" where
  "norm2 x = sqrt (dot x x)"

definition cosine :: "real list \<Rightarrow> real list \<Rightarrow> real" where
  \<comment> \<open>Modelled from the spec: \<open>cosine_similarity\<close> is imported from scikit-learn and is not
      part of the notebooks.  The spec asks for the cosine of the two vectors, with the
      division by a zero norm special-cased to the result 0.\<close>
  "cosine x y =
     (if norm2 x = 0 \<or> norm2 y = 0 then 0 else dot x y / (norm2 x * norm2 y))"

definition cosine_np :: "real list \<Rightarrow> real list \<Rightarrow> npfloat" where
  \<comment> \<open>Modelled from the spec: the same computation with the division as numpy performs it,
      which shows whether a nan or an infinity can come out.\<close>
  "cosine_np x y =
     (if norm2 x = 0 \<or> norm2 y = 0 then Fin 0 else np_divide (dot x y) (norm2 x * norm2 y))"

definition cosine_similarity :: "real list list \<Rightarrow> real list list \<Rightarrow> real list list" where
  \<comment> \<open>Modelled from the spec: the default \<open>sim_func\<close>, missing from the notebooks: the matrix
      of the cosines of the rows of \<open>A\<close> with the rows of \<open>B\<close>.\<close>
  "cosine_similarity A B = map (\<lambda>x. map (\<lambda>y. cosine x y) B) A"

definition well_shaped ::
  "(real list list \<Rightarrow> real list list \<Rightarrow> real list list) \<Rightarrow> bool" where
  \<comment> \<open>a similarity function returns one row per row of \<open>A\<close> and one column per row of \<open>B\<close>\<close>
  "well_shaped sf \<longleftrightarrow>
     (\<forall>A B. length (sf A B) = length A \<and> (\<forall>r \<in> set (sf A B). length r = length B))"

subsection \<open>Example inputs\<close>

definition new_model ::
  "ndarray \<Rightarrow> nat \<Rightarrow> nat \<Rightarrow> nat \<Rightarrow> uuCF" where
  \<comment> \<open>the object \<open>uuCF(Y, k)\<close> right after \<open>__init__\<close>, with the default \<open>sim_func\<close>\<close>
  "new_model Y kk nu ni =
     \<lparr> Y_data = Y, k = kk, sim_func = cosine_similarity, Ybar = None,
       n_users = nu, n_items = ni, mu = None, S = None \<rparr>"

definition dup_Y :: ndarray where
  \<comment> \<open>user 0 rates item 0 twice\<close>
  "dup_Y = Float64 [(0, 0, 5), (0, 0, 4), (0, 1, 0)]"

definition dup_model :: uuCF where
  "dup_model = new_model dup_Y 40 1 2"

definition scenario_Y :: ndarray where
  \<comment> \<open>the scenario of the spec: three users, two items\<close>
  "scenario_Y = Float64 [(0, 0, 5), (0, 1, 3), (1, 0, 4), (1, 1, 4), (2, 0, 1)]"

definition scenario_model :: uuCF where
  "scenario_model = new_model scenario_Y 40 3 2"

definition gap_Y :: ndarray where
  \<comment> \<open>user 1 and item 1 occur in no row\<close>
  "gap_Y = Float64 [(0, 0, 5), (2, 2, 3)]"

definition gap_model :: uuCF where
  "gap_model = new_model gap_Y 40 3 3"

definition int_Y :: ndarray where
  \<comment> \<open>an array of integers, as \<open>to_numpy()\<close> returns for the rating files\<close>
  "int_Y = Int64 [(0, 0, 5), (0, 1, 4)]"

definition int_model :: uuCF where
  "int_model = new_model int_Y 40 1 2"

definition pick_Y :: ndarray where
  \<comment> \<open>four users and five items; item 3 occurs in no row\<close>
  "pick_Y = Float64 [(0, 0, 5), (0, 2, 3), (1, 1, 5), (1, 2, 3), (2, 0, 5), (2, 1, 3),
                     (3, 0, 6), (3, 4, 2)]"

definition pick_model :: uuCF where
  \<comment> \<open>one neighbour only: \<open>uuCF(pick_Y, k=1)\<close>\<close>
  "pick_model = new_model pick_Y 1 4 5"

section \<open>Properties\<close>

subsection \<open>Means and the sparse matrix\<close>


lemma fold_max_ge: "(a::nat) \<le> fold max xs a \<and> (\<forall>x \<in> set xs. x \<le> fold max xs a)"
proof (induction xs arbitrary: a)
  case Nil
  show ?case by simp
next
  case (Cons y ys)
  have "max y a \<le> fold max ys (max y a)" using Cons.IH by blast
  moreover have "\<forall>x \<in> set ys. x \<le> fold max ys (max y a)" using Cons.IH by blast
  ultimately show ?case by auto
qed

lemma amax_ge: "x \<in> set xs \<Longrightarrow> x \<le> amax xs"
  unfolding amax_def using fold_max_ge by blast

lemma length_bincount: "length (bincount xs) = Suc (amax xs)"
  by (simp add: bincount_def)

lemma length_bincount_weights: "length (bincount_weights xs ws) = Suc (amax xs)"
  by (simp add: bincount_weights_def)

lemma zip_filter_users:
  "map snd (filter (\<lambda>p. fst p = n) (zip (map user_of rs) (map rating_of rs)))
     = map rating_of (filter (\<lambda>row. user_of row = n) rs)"
  by (induction rs) auto

lemma count_list_users:
  "count_list (map user_of rs) n = length (filter (\<lambda>row. user_of row = n) rs)"
  by (induction rs) auto

lemma length_user_means: "length (user_means rs) = Suc (amax (map user_of rs))"
  by (simp add: user_means_def length_bincount length_bincount_weights)

lemma user_means_nth:
  assumes "n \<le> amax (map user_of rs)"
  shows "user_means rs ! n = mean_rating rs n"
proof -
  have n: "n < Suc (amax (map user_of rs))" using assms by simp
  have "user_means rs ! n =
          nan_to_num (np_divide (bincount_weights (map user_of rs) (map rating_of rs) ! n)
                                (real (bincount (map user_of rs) ! n)))"
    using n by (simp add: user_means_def length_bincount length_bincount_weights)
  also have "bincount_weights (map user_of rs) (map rating_of rs) ! n
               = sum_list (map rating_of (filter (\<lambda>row. user_of row = n) rs))"
    using n unfolding bincount_weights_def
    by (simp only: nth_map_upt length_upt zip_filter_users) (simp add: zip_filter_users)
  also have "bincount (map user_of rs) ! n = length (filter (\<lambda>row. user_of row = n) rs)"
    using n unfolding bincount_def by (simp add: count_list_users del: upt_Suc)
  finally show ?thesis
    by (auto simp: np_divide_def Let_def mean_rating_def)
qed


lemma coo_add_get:
  "csr_get (coo_add e m) r c = csr_get m r c + (if fst e = (r, c) then snd e else 0)"
  by (cases "m (fst e)") (auto simp: coo_add_def csr_get_def)

lemma coo_add_None: "coo_add e m key = None \<longleftrightarrow> m key = None \<and> key \<noteq> fst e"
  by (cases "m (fst e)") (auto simp: coo_add_def)

lemma fold_coo_add_get:
  "csr_get (fold coo_add es m) r c
     = csr_get m r c + sum_list (map snd (filter (\<lambda>e. fst e = (r, c)) es))"
  by (induction es arbitrary: m) (simp_all add: coo_add_get)

lemma fold_coo_add_None:
  "fold coo_add es m key = None \<longleftrightarrow> m key = None \<and> key \<notin> fst ` set es"
  by (induction es arbitrary: m) (auto simp: coo_add_None)

lemma coo_tocsr_get:
  "csr_get (coo_tocsr es) r c = sum_list (map snd (filter (\<lambda>e. fst e = (r, c)) es))"
  using fold_coo_add_get [of es Map.empty r c] by (simp add: coo_tocsr_def csr_get_def)

lemma coo_tocsr_None: "coo_tocsr es key = None \<longleftrightarrow> key \<notin> fst ` set es"
  by (simp add: coo_tocsr_def fold_coo_add_None)

lemma rows_centered_user: "map user_of (centered Y mus) = map user_of (rows Y)"
  by (simp add: centered_def user_of_def)

lemma fit_fields:
  "Y_data (fit m) = Y_data m" "k (fit m) = k m" "n_users (fit m) = n_users m"
  "n_items (fit m) = n_items m" "sim_func (fit m) = sim_func m"
  "mu (fit m) = Some (user_means (rows (Y_data m)))"
  "Ybar (fit m) = Some (coo_tocsr (to_coo (centered (Y_data m) (user_means (rows (Y_data m))))))"
  by (simp_all add: fit_def build_def Let_def)

lemma fit_S:
  "\<exists>mat. Ybar (fit m) = Some mat \<and>
         S (fit m) = Some (sim_func m (transpose_dense mat (n_items m) (n_users m))
                                      (transpose_dense mat (n_items m) (n_users m)))"
  by (simp add: fit_def build_def Let_def)

lemma map_nth_filter_upt:
  "map ((!) xs) (filter (\<lambda>j. P (xs ! j)) [0..<length xs]) = filter P xs"
proof (induction xs rule: rev_induct)
  case Nil
  show ?case by simp
next
  case (snoc x xs)
  have "filter (\<lambda>j. P ((xs @ [x]) ! j)) [0..<length xs] = filter (\<lambda>j. P (xs ! j)) [0..<length xs]"
    by (rule filter_cong) (simp_all add: nth_append)
  moreover have "map ((!) (xs @ [x])) (filter (\<lambda>j. P (xs ! j)) [0..<length xs])
                   = map ((!) xs) (filter (\<lambda>j. P (xs ! j)) [0..<length xs])"
    by (rule map_cong) (simp_all add: nth_append)
  ultimately show ?case using snoc.IH by simp
qed

lemma where_eq_map:
  "map (\<lambda>j. g (rs ! j)) (where_eq (map f rs) n) = map g (filter (\<lambda>row. f row = n) rs)"
proof -
  have w: "where_eq (map f rs) n = filter (\<lambda>j. f (rs ! j) = n) [0..<length rs]"
    unfolding where_eq_def by (rule filter_cong) simp_all
  have "map (\<lambda>j. g (rs ! j)) (where_eq (map f rs) n)
          = map g (map ((!) rs) (filter (\<lambda>j. f (rs ! j) = n) [0..<length rs]))"
    unfolding w by simp
  also have "\<dots> = map g (filter (\<lambda>row. f row = n) rs)"
    using map_nth_filter_upt [of rs "\<lambda>row. f row = n"] by simp
  finally show ?thesis .
qed

lemma where_eq_set: "set (where_eq xs n) = {j. j < length xs \<and> xs ! j = n}"
  by (auto simp: where_eq_def)

lemma where_eq_distinct: "distinct (where_eq xs n)"
  by (simp add: where_eq_def)

lemma users_rated_item_eq:
  "users_rated_item m i = map user_of (filter (\<lambda>row. item_of row = i) (rows (Y_data m)))"
  by (simp add: users_rated_item_def Let_def where_eq_map)

lemma fold_update_length:
  "length (fold (\<lambda>j yb. yb[j := g j yb]) ids yb) = length yb"
  by (induction ids arbitrary: yb) simp_all

lemma fold_update_nth:
  assumes "distinct ids" "i < length yb"
  shows "fold (\<lambda>j yb. yb[j := h j (yb ! j)]) ids yb ! i
           = (if i \<in> set ids then h i (yb ! i) else yb ! i)"
  using assms
proof (induction ids arbitrary: yb)
  case Nil
  show ?case by simp
next
  case (Cons j js)
  have "i < length (yb[j := h j (yb ! j)])" using Cons.prems by simp
  moreover have "distinct js" "j \<notin> set js" using Cons.prems by simp_all
  ultimately have "fold (\<lambda>j yb. yb[j := h j (yb ! j)]) js (yb[j := h j (yb ! j)]) ! i
           = (if i \<in> set js then h i (yb[j := h j (yb ! j)] ! i) else yb[j := h j (yb ! j)] ! i)"
    using Cons.IH [of "yb[j := h j (yb ! j)]"] by simp
  moreover have "i \<in> set js \<Longrightarrow> i \<noteq> j" using \<open>j \<notin> set js\<close> by blast
  ultimately show ?case using Cons.prems(2)
    by (cases "i = j") (auto simp: nth_list_update)
qed


lemma fit_step_fst: "fst (fit_step Y n st) = (fst st)[n := mean_rating (rows Y) n]"
proof -
  have "map (\<lambda>j. rating_of (rows Y ! j)) (where_eq (map user_of (rows Y)) n)
          = map rating_of (filter (\<lambda>row. user_of row = n) (rows Y))"
    by (rule where_eq_map)
  moreover have "where_eq (map user_of (rows Y)) n = [] \<longleftrightarrow>
                 map (\<lambda>j. rating_of (rows Y ! j)) (where_eq (map user_of (rows Y)) n) = []"
    by simp
  ultimately show ?thesis
    unfolding fit_step_def mean_rating_def Let_def by (simp del: map_is_Nil_conv)
qed

lemma fit_step_snd_length: "length (snd (fit_step Y n st)) = length (snd st)"
  unfolding fit_step_def Let_def by (simp add: fold_update_length)

lemma fit_step_snd_nth:
  assumes "i < length (snd st)" "length (snd st) = length (rows Y)"
  shows "snd (fit_step Y n st) ! i =
           (if user_of (rows Y ! i) = n
            then (user_of (snd st ! i), item_of (snd st ! i),
                  setitem_cast Y (rating_of (rows Y ! i) - mean_rating (rows Y) n))
            else snd st ! i)"
proof -
  let ?ids = "where_eq (map user_of (rows Y)) n"
  let ?h = "\<lambda>j old. (user_of old, item_of old,
                      setitem_cast Y (rating_of (rows Y ! j) - mean_rating (rows Y) n))"
  have mean: "(if ?ids \<noteq> [] then sum_list (map (\<lambda>j. rating_of (rows Y ! j)) ?ids)
                   / real (length (map (\<lambda>j. rating_of (rows Y ! j)) ?ids)) else 0)
              = mean_rating (rows Y) n"
    unfolding mean_rating_def Let_def where_eq_map [symmetric] by simp
  have "snd (fit_step Y n st) = fold (\<lambda>j yb. yb[j := ?h j (yb ! j)]) ?ids (snd st)"
    unfolding fit_step_def Let_def snd_conv mean ..
  then have "snd (fit_step Y n st) ! i = (if i \<in> set ?ids then ?h i (snd st ! i) else snd st ! i)"
    using fold_update_nth [of ?ids i "snd st" ?h] assms(1) by (simp add: where_eq_distinct)
  moreover have "i \<in> set ?ids \<longleftrightarrow> user_of (rows Y ! i) = n"
    using assms by (simp add: where_eq_set)
  ultimately show ?thesis by simp
qed


lemma fit_loop_invariant:
  assumes "n \<le> N"
  shows "fst (fold (fit_step Y) [0..<n] (replicate N 0, rows Y))
           = map (\<lambda>j. if j < n then mean_rating (rows Y) j else 0) [0..<N]
         \<and> snd (fold (fit_step Y) [0..<n] (replicate N 0, rows Y))
           = map (\<lambda>row. if user_of row < n
                         then (user_of row, item_of row,
                               setitem_cast Y (rating_of row - mean_rating (rows Y) (user_of row)))
                         else row) (rows Y)"
  using assms
proof (induction n)
  case 0
  show ?case by (simp add: map_replicate_const)
next
  case (Suc n)
  let ?st = "fold (fit_step Y) [0..<n] (replicate N 0, rows Y)"
  have IH1: "fst ?st = map (\<lambda>j. if j < n then mean_rating (rows Y) j else 0) [0..<N]"
    and IH2: "snd ?st = map (\<lambda>row. if user_of row < n
                         then (user_of row, item_of row,
                               setitem_cast Y (rating_of row - mean_rating (rows Y) (user_of row)))
                         else row) (rows Y)"
    using Suc by simp_all
  have step: "fold (fit_step Y) [0..<Suc n] (replicate N 0, rows Y) = fit_step Y n ?st"
    by simp
  have len: "length (snd ?st) = length (rows Y)" using IH2 by simp
  have "fst (fit_step Y n ?st)
          = map (\<lambda>j. if j < Suc n then mean_rating (rows Y) j else 0) [0..<N]"
  proof (rule nth_equalityI)
    show "length (fst (fit_step Y n ?st))
            = length (map (\<lambda>j. if j < Suc n then mean_rating (rows Y) j else 0) [0..<N])"
      by (simp add: fit_step_fst IH1)
  next
    fix i assume "i < length (fst (fit_step Y n ?st))"
    then have i: "i < N" by (simp add: fit_step_fst IH1)
    then show "fst (fit_step Y n ?st) ! i
                 = map (\<lambda>j. if j < Suc n then mean_rating (rows Y) j else 0) [0..<N] ! i"
      using Suc.prems by (auto simp: fit_step_fst IH1 nth_list_update less_Suc_eq)
  qed
  moreover have "snd (fit_step Y n ?st)
          = map (\<lambda>row. if user_of row < Suc n
                         then (user_of row, item_of row,
                               setitem_cast Y (rating_of row - mean_rating (rows Y) (user_of row)))
                         else row) (rows Y)"
  proof (rule nth_equalityI)
    show "length (snd (fit_step Y n ?st))
            = length (map (\<lambda>row. if user_of row < Suc n
                         then (user_of row, item_of row,
                               setitem_cast Y (rating_of row - mean_rating (rows Y) (user_of row)))
                         else row) (rows Y))"
      by (simp add: fit_step_snd_length len)
  next
    fix i assume "i < length (snd (fit_step Y n ?st))"
    then have i: "i < length (rows Y)" by (simp add: fit_step_snd_length len)
    then have "snd (fit_step Y n ?st) ! i =
           (if user_of (rows Y ! i) = n
            then (user_of (snd ?st ! i), item_of (snd ?st ! i),
                  setitem_cast Y (rating_of (rows Y ! i) - mean_rating (rows Y) n))
            else snd ?st ! i)"
      using fit_step_snd_nth [of i ?st Y n] len by simp
    moreover have "snd ?st ! i = (if user_of (rows Y ! i) < n
                         then (user_of (rows Y ! i), item_of (rows Y ! i),
                               setitem_cast Y (rating_of (rows Y ! i)
                                  - mean_rating (rows Y) (user_of (rows Y ! i))))
                         else rows Y ! i)"
      using i by (simp add: IH2)
    ultimately show "snd (fit_step Y n ?st) ! i
            = map (\<lambda>row. if user_of row < Suc n
                         then (user_of row, item_of row,
                               setitem_cast Y (rating_of row - mean_rating (rows Y) (user_of row)))
                         else row) (rows Y) ! i"
      using i by (auto simp: less_Suc_eq)
  qed
  ultimately show ?case unfolding step by blast
qed

lemma fit_book_eq_fit:
  assumes "n_users m = Suc (amax (map user_of (rows (Y_data m))))"
  shows "fit_book m = fit m"
proof -
  let ?Y = "Y_data m" and ?N = "n_users m"
  let ?st = "fold (fit_step ?Y) [0..<?N] (replicate ?N 0, rows ?Y)"
  have inv: "fst ?st = map (\<lambda>j. if j < ?N then mean_rating (rows ?Y) j else 0) [0..<?N]"
    "snd ?st = map (\<lambda>row. if user_of row < ?N
                         then (user_of row, item_of row,
                               setitem_cast ?Y (rating_of row - mean_rating (rows ?Y) (user_of row)))
                         else row) (rows ?Y)"
    using fit_loop_invariant [of ?N ?N ?Y] by simp_all
  have l1: "length (fst ?st) = ?N" unfolding inv(1) by simp
  have l2: "length (user_means (rows ?Y)) = ?N" using assms by (simp add: length_user_means)
  have mus: "fst ?st = user_means (rows ?Y)"
  proof (rule nth_equalityI)
    show "length (fst ?st) = length (user_means (rows ?Y))"
      by (simp only: l1 l2)
  next
    fix i assume "i < length (fst ?st)"
    then have i: "i < ?N" by (simp only: l1)
    then have "i \<le> amax (map user_of (rows ?Y))" using assms by simp
    then have "user_means (rows ?Y) ! i = mean_rating (rows ?Y) i" by (rule user_means_nth)
    moreover have "fst ?st ! i = mean_rating (rows ?Y) i" unfolding inv(1) using i by simp
    ultimately show "fst ?st ! i = user_means (rows ?Y) ! i" by simp
  qed
  have "snd ?st = centered ?Y (user_means (rows ?Y))"
    unfolding inv(2) centered_def
  proof (rule map_cong [OF refl])
    fix row assume "row \<in> set (rows ?Y)"
    then have "user_of row \<le> amax (map user_of (rows ?Y))" by (simp add: amax_ge)
    then show "(if user_of row < ?N
                         then (user_of row, item_of row,
                               setitem_cast ?Y (rating_of row - mean_rating (rows ?Y) (user_of row)))
                         else row)
       = (user_of row, item_of row, setitem_cast ?Y (rating_of row - user_means (rows ?Y) ! user_of row))"
      using assms by (simp add: user_means_nth)
  qed
  then show ?thesis unfolding fit_book_def fit_def Let_def mus by simp
qed


subsection \<open>Prediction on a fitted model\<close>

lemma init_fields:
  assumes "uuCF_init Y kk sf = Inr m0"
  shows "rows Y \<noteq> []" "Y_data m0 = Y" "k m0 = kk" "sim_func m0 = sf"
    "n_users m0 = Suc (amax (map user_of (rows Y)))"
    "n_items m0 = Suc (amax (map item_of (rows Y)))"
    "Ybar m0 = None" "mu m0 = None" "S m0 = None"
  using assms by (auto simp: uuCF_init_def split: if_splits)

text \<open>
  On a model that comes from \<open>__init__\<close> the loop of the book and the vectorised \<open>fit\<close>
  of the paper give the same fitted model, so that what is shown of \<open>fit m0\<close> below holds of
  \<open>fit_book m0\<close> as well.
\<close>

lemma init_fit_book:
  assumes "uuCF_init Y kk sf = Inr m0"
  shows "fit_book m0 = fit m0"
  using init_fields [OF assms] by (simp add: fit_book_eq_fit)

lemma fit_S_shape:
  assumes "well_shaped (sim_func m)" "S (fit m) = Some sm"
  shows "length sm = n_users m" "\<forall>r \<in> set sm. length r = n_users m"
proof -
  obtain mat where "S (fit m) = Some (sim_func m (transpose_dense mat (n_items m) (n_users m))
                                      (transpose_dense mat (n_items m) (n_users m)))"
    using fit_S [of m] by blast
  moreover have "length (transpose_dense mat (n_items m) (n_users m)) = n_users m"
    by (simp add: transpose_dense_def)
  ultimately show "length sm = n_users m" "\<forall>r \<in> set sm. length r = n_users m"
    using assms unfolding well_shaped_def by auto
qed

lemma raters_lt_n_users:
  assumes "n_users m = Suc (amax (map user_of (rows (Y_data m))))"
    and "u \<in> set (users_rated_item m i)"
  shows "u < n_users m"
proof -
  from assms(2) obtain row where "row \<in> set (rows (Y_data m))" "u = user_of row"
    by (auto simp: users_rated_item_eq)
  then have "u \<le> amax (map user_of (rows (Y_data m)))" by (simp add: amax_ge)
  then show ?thesis using assms(1) by simp
qed

lemma raters_item_lt:
  assumes "n_items m = Suc (amax (map item_of (rows (Y_data m))))"
    and "users_rated_item m i \<noteq> []"
  shows "i < n_items m"
proof -
  from assms(2) obtain row where "row \<in> set (rows (Y_data m))" "item_of row = i"
    by (auto simp: users_rated_item_eq filter_empty_conv)
  then have "i \<le> amax (map item_of (rows (Y_data m)))" using amax_ge [of i "map item_of (rows (Y_data m))"] by auto
  then show ?thesis using assms(1) by simp
qed

lemma argsort_props:
  "length (argsort xs) = length xs" "set (argsort xs) = {0..<length xs}"
  "distinct (argsort xs)" "sorted (map (\<lambda>j. xs ! j) (argsort xs))"
  by (simp_all add: argsort_def)

lemma take_last_set: "set (take_last n xs) \<subseteq> set xs"
  by (auto simp: take_last_def dest: in_set_dropD)

lemma nearest_neighbors_lt:
  "j \<in> set (nearest_neighbors kk sims) \<Longrightarrow> j < length sims"
  using take_last_set [of kk "argsort sims"] by (auto simp: nearest_neighbors_def argsort_props)


lemma map2_same: "map2 f (map g xs) (map h xs) = map (\<lambda>x. f (g x) (h x)) xs"
  by (induction xs) simp_all

lemma predict_rating_value:
  assumes nu: "n_users m = Suc (amax (map user_of (rows (Y_data m))))"
    and fields: "S m = Some sm" "Ybar m = Some mat" "mu m = Some mus"
    and shape: "length sm = n_users m" "\<forall>r \<in> set sm. length r = n_users m"
      "length mus = n_users m"
    and u: "u < n_users m" and i: "i < n_items m"
  shows "predict_rating m u i =
           Inr (sum_list (map (\<lambda>n. csr_get mat i n * (sm ! u ! n)) (neighbors m u i))
                  / (sum_list (map (\<lambda>n. \<bar>sm ! u ! n\<bar>) (neighbors m u i)) + eps)
                + mus ! u)"
proof -
  let ?raters = "users_rated_item m i"
  let ?sims = "map (\<lambda>v. sm ! u ! v) ?raters"
  let ?nn = "nearest_neighbors (k m) ?sims"
  let ?cols = "map (\<lambda>j. ?raters ! j) ?nn"
  have row: "length (sm ! u) = n_users m" using shape(1,2) u by simp
  have raters: "\<forall>v \<in> set ?raters. v < length (sm ! u)"
    using raters_lt_n_users [OF nu] row by simp
  have sims: "sim_scores m u i = ?sims" by (simp add: sim_scores_def fields)
  have cols: "neighbors m u i = ?cols" by (simp add: neighbors_def sims)
  have nn: "\<forall>j \<in> set ?nn. j < length ?raters"
    using nearest_neighbors_lt [of _ "k m" ?sims] by simp
  have cols_lt: "\<forall>c \<in> set ?cols. c < n_users m"
  proof
    fix c assume "c \<in> set ?cols"
    then obtain j where "j \<in> set ?nn" "c = ?raters ! j" by auto
    then have "c \<in> set ?raters" using nn by simp
    then show "c < n_users m" by (rule raters_lt_n_users [OF nu])
  qed
  have nsims: "map (\<lambda>j. ?sims ! j) ?nn = map (\<lambda>n. sm ! u ! n) ?cols"
    using nn by simp
  have prod: "map2 (\<lambda>a b. a * b) (map (\<lambda>c. csr_get mat i c) ?cols) (map (\<lambda>j. ?sims ! j) ?nn)
                = map (\<lambda>n. csr_get mat i n * (sm ! u ! n)) ?cols"
    unfolding nsims by (rule map2_same)
  have ab: "map abs (map (\<lambda>j. ?sims ! j) ?nn) = map (\<lambda>n. \<bar>sm ! u ! n\<bar>) ?cols"
    unfolding nsims by simp
  have "predict_rating m u i =
          Inr (sum_list (map2 (\<lambda>a b. a * b) (map (\<lambda>c. csr_get mat i c) ?cols)
                           (map (\<lambda>j. ?sims ! j) ?nn))
                 / (sum_list (map abs (map (\<lambda>j. ?sims ! j) ?nn)) + eps) + mus ! u)"
    unfolding predict_rating_def Let_def fields option.case
    using raters cols_lt u i shape(1,3) by simp
  then show ?thesis unfolding prod ab cols .
qed


lemma fitted_predict:
  assumes init: "uuCF_init Y kk sf = Inr m0" and ws: "well_shaped sf"
    and u: "u < n_users m0" and i: "i < n_items m0"
  shows "\<exists>sm mat mus. S (fit m0) = Some sm \<and> Ybar (fit m0) = Some mat \<and> mu (fit m0) = Some mus \<and>
           predict_rating (fit m0) u i =
             Inr (sum_list (map (\<lambda>n. csr_get mat i n * (sm ! u ! n)) (neighbors (fit m0) u i))
                  / (sum_list (map (\<lambda>n. \<bar>sm ! u ! n\<bar>) (neighbors (fit m0) u i)) + eps)
                + mus ! u)"
proof -
  note f = init_fields [OF init]
  obtain mat sm where mat: "Ybar (fit m0) = Some mat" and sm: "S (fit m0) = Some sm"
    using fit_S [of m0] by blast
  have mus: "mu (fit m0) = Some (user_means (rows Y))" by (simp add: fit_fields f)
  have shape: "length sm = n_users (fit m0)" "\<forall>r \<in> set sm. length r = n_users (fit m0)"
    using fit_S_shape [of m0 sm] ws sm by (simp_all add: f fit_fields)
  have "predict_rating (fit m0) u i =
           Inr (sum_list (map (\<lambda>n. csr_get mat i n * (sm ! u ! n)) (neighbors (fit m0) u i))
                  / (sum_list (map (\<lambda>n. \<bar>sm ! u ! n\<bar>) (neighbors (fit m0) u i)) + eps)
                + user_means (rows Y) ! u)"
    by (rule predict_rating_value [OF _ sm mat mus shape])
       (simp_all add: fit_fields f length_user_means u [unfolded f] i [unfolded f])
  then show ?thesis using mat sm mus by blast
qed


subsection \<open>Entries of the centred matrix\<close>

lemma to_coo_entry:
  "csr_get (coo_tocsr (to_coo yb)) t s
     = sum_list (map rating_of (filter (\<lambda>row. item_of row = t \<and> user_of row = s) yb))"
  unfolding coo_tocsr_get to_coo_def by (induction yb) simp_all

lemma to_coo_stored:
  "coo_tocsr (to_coo yb) (t, s) = None \<longleftrightarrow> (\<forall>row \<in> set yb. \<not> (item_of row = t \<and> user_of row = s))"
  unfolding coo_tocsr_None to_coo_def by (induction yb) auto

lemma Ybar_build: "Ybar (build m mus yb) = Some (coo_tocsr (to_coo yb))"
  by (simp add: build_def Let_def)

text \<open>
  C10: duplicate (subject, target) pairs are added up.  The entry of the fitted \<open>Ybar\<close> at
  (target, subject) is the sum of the centred values of all the rows of the input with that
  pair, in the paper's \<open>fit\<close> and in the book's; it is not the value written last.
\<close>

theorem duplicates_are_summed:
  "(\<exists>mat. Ybar (fit m) = Some mat \<and>
      (\<forall>t s. csr_get mat t s =
         sum_list (map rating_of (filter (\<lambda>row. item_of row = t \<and> user_of row = s)
                     (centered (Y_data m) (user_means (rows (Y_data m))))))))
   \<and> (\<exists>mat. Ybar (fit_book m) = Some mat \<and>
      (\<forall>t s. csr_get mat t s =
         sum_list (map rating_of (filter (\<lambda>row. item_of row = t \<and> user_of row = s)
                     (snd (fold (fit_step (Y_data m)) [0..<n_users m]
                             (replicate (n_users m) 0, rows (Y_data m))))))))"
  unfolding fit_def fit_book_def Let_def Ybar_build by (simp add: to_coo_entry)

theorem duplicates_are_summed_witness:
  "\<exists>mat. Ybar (fit dup_model) = Some mat \<and> csr_get mat 0 0 = 3
         \<and> centered dup_Y (user_means (rows dup_Y)) = [(0, 0, 2), (0, 0, 1), (0, 1, - 3)]"
proof -
  have mus: "user_means (rows dup_Y) = [3]"
    by (simp add: user_means_def bincount_def bincount_weights_def dup_Y_def amax_def
        user_of_def rating_of_def np_divide_def)
  have c: "centered dup_Y [3] = [(0, 0, 2), (0, 0, 1), (0, 1, - 3)]"
    by (simp add: centered_def dup_Y_def user_of_def item_of_def rating_of_def)
  have Y: "Y_data dup_model = dup_Y" by (simp add: dup_model_def new_model_def)
  from duplicates_are_summed [of dup_model]
  obtain mat where "Ybar (fit dup_model) = Some mat"
    and "\<forall>t s. csr_get mat t s =
         sum_list (map rating_of (filter (\<lambda>row. item_of row = t \<and> user_of row = s)
                     (centered (Y_data dup_model) (user_means (rows (Y_data dup_model))))))"
    by blast
  then have "Ybar (fit dup_model) = Some mat \<and> csr_get mat 0 0 = 3"
    unfolding Y mus c by (simp add: item_of_def user_of_def rating_of_def)
  then show ?thesis unfolding mus c by blast
qed


subsection \<open>Normalisation\<close>

lemma filter_single:
  assumes "x \<in> set xs" "P x" "length (filter P xs) = 1"
  shows "filter P xs = [x]"
proof -
  from assms(3) obtain z where z: "filter P xs = [z]"
    by (cases "filter P xs") auto
  moreover have "x \<in> set (filter P xs)" using assms(1,2) by simp
  ultimately show ?thesis by simp
qed

lemma count_list_map:
  "count_list (map f xs) y = length (filter (\<lambda>x. f x = y) xs)"
  by (induction xs) auto

lemma centered_filter:
  "map rating_of (filter (\<lambda>row. item_of row = t \<and> user_of row = s) (centered Y mus))
     = map (\<lambda>row. setitem_cast Y (rating_of row - mus ! s))
         (filter (\<lambda>row. item_of row = t \<and> user_of row = s) (rows Y))"
  unfolding centered_def
  by (simp add: filter_map o_def item_of_def user_of_def rating_of_def)


lemma fit_entry:
  "\<exists>mat. Ybar (fit m) = Some mat \<and>
     csr_get mat t s =
       sum_list (map (\<lambda>row. setitem_cast (Y_data m) (rating_of row - user_means (rows (Y_data m)) ! s))
                   (filter (\<lambda>row. item_of row = t \<and> user_of row = s) (rows (Y_data m))))"
  by (simp add: fit_fields to_coo_entry centered_filter)

lemma example_inits:
  "uuCF_init dup_Y 40 cosine_similarity = Inr dup_model"
  "uuCF_init scenario_Y 40 cosine_similarity = Inr scenario_model"
  "uuCF_init gap_Y 40 cosine_similarity = Inr gap_model"
  "uuCF_init int_Y 40 cosine_similarity = Inr int_model"
  by (simp_all add: uuCF_init_def new_model_def amax_def user_of_def item_of_def
      dup_Y_def dup_model_def scenario_Y_def scenario_model_def gap_Y_def gap_model_def
      int_Y_def int_model_def)

text \<open>
  C2, as amended: on an array of floats, a rating whose (subject, target) pair occurs once
  in the input is reproduced by its entry of \<open>Ybar\<close> plus the mean of its subject, in the
  paper's \<open>fit\<close> and in the book's.
\<close>

theorem centered_plus_mean:
  assumes init: "uuCF_init (Float64 xs) kk sf = Inr m0"
    and row: "(s, t, v) \<in> set xs"
    and once: "count_list (map (\<lambda>row. (user_of row, item_of row)) xs) (s, t) = 1"
  shows "\<exists>mat mus. Ybar (fit m0) = Some mat \<and> mu (fit m0) = Some mus \<and>
           Ybar (fit_book m0) = Some mat \<and> mu (fit_book m0) = Some mus \<and>
           csr_get mat t s + mus ! s = v"
proof -
  note f = init_fields [OF init]
  let ?P = "\<lambda>row. item_of row = t \<and> user_of row = s"
  have "length (filter (\<lambda>row. (user_of row, item_of row) = (s, t)) xs) = 1"
    using once by (simp only: count_list_map)
  moreover have "(\<lambda>row. (user_of row, item_of row) = (s, t)) = ?P" by auto
  ultimately have "length (filter ?P xs) = 1" by simp
  moreover have "?P (s, t, v)" by (simp add: item_of_def user_of_def)
  ultimately have single: "filter ?P xs = [(s, t, v)]" using row by (intro filter_single)
  obtain mat where mat: "Ybar (fit m0) = Some mat"
    and entry: "csr_get mat t s =
       sum_list (map (\<lambda>row. setitem_cast (Y_data m0) (rating_of row - user_means (rows (Y_data m0)) ! s))
                   (filter ?P (rows (Y_data m0))))"
    using fit_entry [of m0 t s] by blast
  have "csr_get mat t s = v - user_means xs ! s"
    unfolding entry f(2) by (simp add: single rating_of_def)
  moreover have "mu (fit m0) = Some (user_means xs)" by (simp add: fit_fields f)
  ultimately show ?thesis using mat init_fit_book [OF init] by simp
qed

theorem centered_plus_mean_witness:
  "\<exists>mat mus. Ybar (fit scenario_model) = Some mat \<and> mu (fit scenario_model) = Some mus \<and>
     Ybar (fit_book scenario_model) = Some mat \<and> mu (fit_book scenario_model) = Some mus \<and>
     csr_get mat 1 0 + mus ! 0 = 3"
proof -
  have "uuCF_init (Float64 [(0, 0, 5), (0, 1, 3), (1, 0, 4), (1, 1, 4), (2, 0, 1)]) 40
          cosine_similarity = Inr scenario_model"
    using example_inits(2) by (simp add: scenario_Y_def)
  from centered_plus_mean [OF this, of 0 1 3] show ?thesis
    by (simp add: user_of_def item_of_def)
qed

text \<open>
  With the pair (0, 0) rated twice, by 5 and by 4, the entry is the sum 3 of the two centred
  values, and the entry plus the mean is 6, which is neither rating.
\<close>

theorem centered_plus_mean_duplicates:
  "(0, 0, 5) \<in> set (rows dup_Y) \<and>
   (\<exists>mat mus. Ybar (fit dup_model) = Some mat \<and> mu (fit dup_model) = Some mus \<and>
       csr_get mat 0 0 = 3 \<and> mus ! 0 = 3 \<and> csr_get mat 0 0 + mus ! 0 \<noteq> 5)"
proof -
  have mus: "user_means (rows dup_Y) = [3]"
    by (simp add: user_means_def bincount_def bincount_weights_def dup_Y_def amax_def
        user_of_def rating_of_def np_divide_def)
  have Y: "Y_data dup_model = dup_Y" by (simp add: dup_model_def new_model_def)
  obtain mat where "Ybar (fit dup_model) = Some mat"
    and "csr_get mat 0 0 =
       sum_list (map (\<lambda>row. setitem_cast (Y_data dup_model)
                      (rating_of row - user_means (rows (Y_data dup_model)) ! 0))
                   (filter (\<lambda>row. item_of row = 0 \<and> user_of row = 0) (rows (Y_data dup_model))))"
    using fit_entry [of dup_model 0 0] by blast
  then have "Ybar (fit dup_model) = Some mat \<and> csr_get mat 0 0 = 3"
    unfolding Y mus by (simp add: dup_Y_def item_of_def user_of_def rating_of_def)
  moreover have "mu (fit dup_model) = Some [3]" by (simp add: fit_fields Y mus)
  moreover have "(0, 0, 5) \<in> set (rows dup_Y)" by (simp add: dup_Y_def)
  ultimately show ?thesis by simp
qed

text \<open>
  On an array of integers the centred ratings are stored in a copy of that array and lose
  their fractions: the ratings 5 and 4 of one user have the mean 4.5 and the stored centred
  values 0 and 0.
\<close>

lemma int64_truncates:
  "\<exists>mat mus. Ybar (fit int_model) = Some mat \<and> mu (fit int_model) = Some mus \<and>
     mus ! 0 = 9 / 2 \<and> csr_get mat 0 0 = 0 \<and> csr_get mat 1 0 = 0"
proof -
  have mus: "user_means (rows int_Y) = [9 / 2]"
    by (simp add: user_means_def bincount_def bincount_weights_def int_Y_def amax_def
        user_of_def rating_of_def np_divide_def)
  have Y: "Y_data int_model = int_Y" by (simp add: int_model_def new_model_def)
  have t: "trunc (1 / 2) = 0" "trunc (- (1 / 2)) = 0"
    by (simp_all add: trunc_def ceiling_eq_iff)
  obtain mat where mat: "Ybar (fit int_model) = Some mat"
    and e: "\<And>t. csr_get mat t 0 =
       sum_list (map (\<lambda>row. setitem_cast (Y_data int_model)
                      (rating_of row - user_means (rows (Y_data int_model)) ! 0))
                   (filter (\<lambda>row. item_of row = t \<and> user_of row = 0) (rows (Y_data int_model))))"
    using fit_entry [of int_model _ 0] by (auto simp: fit_fields)
  have "csr_get mat 0 0 = 0" "csr_get mat 1 0 = 0"
    unfolding e Y mus by (simp_all add: int_Y_def item_of_def user_of_def rating_of_def t)
  moreover have "mu (fit int_model) = Some [9 / 2]" by (simp add: fit_fields Y mus)
  ultimately show ?thesis using mat by simp
qed


subsection \<open>A subject without ratings\<close>

lemma mean_rating_none:
  "s \<notin> set (map user_of rs) \<Longrightarrow> mean_rating rs s = 0"
proof -
  assume "s \<notin> set (map user_of rs)"
  then have "filter (\<lambda>row. user_of row = s) rs = []"
    by (auto simp: filter_empty_conv)
  then show ?thesis by (simp add: mean_rating_def)
qed

lemma bincount_division_nan:
  assumes "s \<le> amax (map user_of rs)" "s \<notin> set (map user_of rs)"
  shows "map2 np_divide (bincount_weights (map user_of rs) (map rating_of rs))
           (map real (bincount (map user_of rs))) ! s = NaN"
proof -
  have e: "filter (\<lambda>row. user_of row = s) rs = []"
    using assms(2) by (auto simp: filter_empty_conv)
  have s: "s < Suc (amax (map user_of rs))" using assms(1) by simp
  have "bincount_weights (map user_of rs) (map rating_of rs) ! s = 0"
    using s unfolding bincount_weights_def
    by (simp add: zip_filter_users e del: upt_Suc)
  moreover have "bincount (map user_of rs) ! s = 0"
    using s unfolding bincount_def by (simp add: count_list_users e del: upt_Suc)
  ultimately show ?thesis
    using s by (simp add: length_bincount length_bincount_weights np_divide_def)
qed

text \<open>
  C5: a subject below \<open>n_users\<close> without a rating in the input has the mean 0 after \<open>fit\<close>,
  and no entry of \<open>Ybar\<close> is stored in its column.  The paper's \<open>fit\<close> gets the 0 from
  \<open>nan_to_num\<close> (the division of the two empty bins is nan), the book's from its guard.
\<close>

theorem unrated_subject_mean_zero:
  assumes init: "uuCF_init Y kk sf = Inr m0"
    and s: "s < n_users m0"
    and none: "s \<notin> set (map user_of (rows Y))"
  shows "\<exists>mat mus. Ybar (fit m0) = Some mat \<and> mu (fit m0) = Some mus \<and>
           Ybar (fit_book m0) = Some mat \<and> mu (fit_book m0) = Some mus \<and>
           mus ! s = 0 \<and> (\<forall>t. mat (t, s) = None)"
proof -
  note f = init_fields [OF init]
  have le: "s \<le> amax (map user_of (rows Y))" using s f(5) by simp
  have "user_means (rows Y) ! s = 0"
    using user_means_nth [OF le] mean_rating_none [OF none] by simp
  moreover have "coo_tocsr (to_coo (centered Y (user_means (rows Y)))) (t, s) = None" for t
  proof -
    have "\<forall>row \<in> set (centered Y (user_means (rows Y))). user_of row \<noteq> s"
      using none rows_centered_user [of Y "user_means (rows Y)"]
      by (metis image_eqI set_map)
    then show ?thesis unfolding to_coo_stored by blast
  qed
  ultimately show ?thesis
    using init_fit_book [OF init] by (simp add: fit_fields f)
qed

theorem unrated_subject_mean_zero_witness:
  "\<exists>mat mus. Ybar (fit gap_model) = Some mat \<and> mu (fit gap_model) = Some mus \<and>
           Ybar (fit_book gap_model) = Some mat \<and> mu (fit_book gap_model) = Some mus \<and>
           mus ! 1 = 0 \<and> (\<forall>t. mat (t, 1) = None)"
proof -
  have "1 < n_users gap_model" by (simp add: gap_model_def new_model_def)
  moreover have "1 \<notin> set (map user_of (rows gap_Y))"
    by (simp add: gap_Y_def user_of_def)
  ultimately show ?thesis
    using unrated_subject_mean_zero [OF example_inits(3), of 1] by blast
qed


subsection \<open>The selected neighbours\<close>

lemma length_take_last:
  "length (take_last n xs) = (if n = 0 then length xs else min n (length xs))"
  by (auto simp: take_last_def)

lemma distinct_take_last: "distinct xs \<Longrightarrow> distinct (take_last n xs)"
  by (simp add: take_last_def)



lemma nearest_neighbors_props:
  "distinct (nearest_neighbors kk sims)"
  "set (nearest_neighbors kk sims) \<subseteq> {0..<length sims}"
  "length (nearest_neighbors kk sims) = (if kk = 0 then length sims else min kk (length sims))"
  using take_last_set [of kk "argsort sims"]
  by (simp_all add: nearest_neighbors_def distinct_take_last argsort_props length_take_last)


lemma nearest_neighbors_zero: "nearest_neighbors 0 sims = argsort sims"
  by (simp add: nearest_neighbors_def take_last_def)


lemma well_shaped_cosine: "well_shaped cosine_similarity"
  by (simp add: well_shaped_def cosine_similarity_def)


lemma fitted_sim_scores:
  assumes "S m = Some sm"
  shows "sim_scores m u i = map (\<lambda>v. sm ! u ! v) (users_rated_item m i)"
  by (simp add: sim_scores_def assms)

lemma length_sim_scores:
  "S m = Some sm \<Longrightarrow> length (sim_scores m u i) = length (users_rated_item m i)"
  by (simp add: sim_scores_def)

lemma length_neighbors:
  "length (neighbors m u i) =
     (if k m = 0 then length (sim_scores m u i) else min (k m) (length (sim_scores m u i)))"
  by (simp add: neighbors_def nearest_neighbors_props)

lemma neighbors_Nil: "users_rated_item m i = [] \<Longrightarrow> neighbors m u i = []"
proof -
  assume "users_rated_item m i = []"
  then have "sim_scores m u i = []" by (simp add: sim_scores_def split: option.splits)
  then have "length (neighbors m u i) = 0" by (simp add: length_neighbors)
  then show ?thesis by simp
qed



lemma scenario_raters: "users_rated_item (fit scenario_model) 1 = [0, 1]"
  by (simp add: users_rated_item_eq fit_fields scenario_model_def new_model_def scenario_Y_def
      item_of_def user_of_def)

lemma scenario_shape: "2 < n_users scenario_model" "1 < n_items scenario_model"
  by (simp_all add: scenario_model_def new_model_def)

text \<open>
  C3: the prediction is the similarity-weighted sum of the centred ratings of the selected
  neighbours, divided by the sum of the absolute similarities plus \<open>eps = 1e-8\<close>, plus the
  mean of the subject.  Nothing is clamped, and the divisor is positive, so that no case of
  a zero divisor is left to treat.
\<close>

theorem prediction_formula:
  assumes init: "uuCF_init Y kk sf = Inr m0" and ws: "well_shaped sf"
    and u: "u < n_users m0" and ne: "neighbors (fit m0) u i \<noteq> []"
  shows "\<exists>sm mat mus. S (fit m0) = Some sm \<and> Ybar (fit m0) = Some mat \<and> mu (fit m0) = Some mus \<and>
           predict_rating (fit m0) u i =
             Inr (sum_list (map (\<lambda>n. csr_get mat i n * (sm ! u ! n)) (neighbors (fit m0) u i))
                  / (sum_list (map (\<lambda>n. \<bar>sm ! u ! n\<bar>) (neighbors (fit m0) u i)) + 1 / 10 ^ 8)
                + mus ! u) \<and>
           0 < sum_list (map (\<lambda>n. \<bar>sm ! u ! n\<bar>) (neighbors (fit m0) u i)) + 1 / 10 ^ 8"
proof -
  note f = init_fields [OF init]
  have "users_rated_item (fit m0) i \<noteq> []"
    using ne neighbors_Nil [of "fit m0" i u] by blast
  then have i: "i < n_items m0"
    using raters_item_lt [of "fit m0" i] by (simp add: fit_fields f)
  have "0 \<le> sum_list (map (\<lambda>n. \<bar>sm ! u ! n\<bar>) ns)" for sm :: "real list list" and ns
    by (rule sum_list_nonneg) auto
  then have "0 < sum_list (map (\<lambda>n. \<bar>sm ! u ! n\<bar>) ns) + 1 / 10 ^ 8"
    for sm :: "real list list" and ns
    by (simp add: add_nonneg_pos)
  then show ?thesis using fitted_predict [OF init ws u i] unfolding eps_def by blast
qed

theorem prediction_formula_witness:
  "\<exists>sm mat mus. S (fit scenario_model) = Some sm \<and> Ybar (fit scenario_model) = Some mat \<and>
      mu (fit scenario_model) = Some mus \<and>
      predict_rating (fit scenario_model) 2 1 =
        Inr (sum_list (map (\<lambda>n. csr_get mat 1 n * (sm ! 2 ! n)) (neighbors (fit scenario_model) 2 1))
             / (sum_list (map (\<lambda>n. \<bar>sm ! 2 ! n\<bar>) (neighbors (fit scenario_model) 2 1)) + 1 / 10 ^ 8)
             + mus ! 2)"
proof -
  obtain sm where "S (fit scenario_model) = Some sm" using fit_S [of scenario_model] by blast
  then have "length (sim_scores (fit scenario_model) 2 1)
               = length (users_rated_item (fit scenario_model) 1)"
    by (rule length_sim_scores)
  then have "length (sim_scores (fit scenario_model) 2 1) = 2"
    unfolding scenario_raters by simp
  moreover have "k (fit scenario_model) = 40"
    by (simp add: fit_fields scenario_model_def new_model_def)
  ultimately have "length (neighbors (fit scenario_model) 2 1) = 2"
    by (simp add: length_neighbors)
  then have "neighbors (fit scenario_model) 2 1 \<noteq> []" by auto
  from prediction_formula [OF example_inits(2) well_shaped_cosine scenario_shape(1) this]
  show ?thesis by blast
qed


lemma raters_distinct:
  "distinct (map (\<lambda>row. (user_of row, item_of row)) rs) \<Longrightarrow>
     distinct (map user_of (filter (\<lambda>row. item_of row = i) rs))"
proof (induction rs)
  case Nil
  show ?case by simp
next
  case (Cons r rs)
  then have "distinct (map user_of (filter (\<lambda>row. item_of row = i) rs))" by simp
  moreover have "user_of r \<notin> user_of ` {row \<in> set rs. item_of row = i}" if "item_of r = i"
  proof
    assume "user_of r \<in> user_of ` {row \<in> set rs. item_of row = i}"
    then obtain row where "row \<in> set rs" "item_of row = i" "user_of row = user_of r" by auto
    then have "(user_of r, item_of r) = (user_of row, item_of row)" "row \<in> set rs"
      using that by simp_all
    then have "(user_of r, item_of r) \<in> (\<lambda>row. (user_of row, item_of row)) ` set rs"
      by (rule image_eqI)
    then show False using Cons.prems by simp
  qed
  ultimately show ?case by auto
qed

text \<open>
  When no (subject, target) pair occurs twice in the input, the selected neighbours are
  distinct users, and a sum over their list is a sum over their set.
\<close>

lemma neighbors_distinct:
  assumes "distinct (map (\<lambda>row. (user_of row, item_of row)) (rows (Y_data m)))"
  shows "distinct (neighbors m u i)"
proof -
  let ?raters = "users_rated_item m i"
  let ?nn = "nearest_neighbors (k m) (sim_scores m u i)"
  have r: "distinct ?raters"
    unfolding users_rated_item_eq using assms by (rule raters_distinct)
  have len: "length (sim_scores m u i) \<le> length ?raters"
    by (simp add: sim_scores_def split: option.splits)
  have nn: "distinct ?nn" "\<forall>j \<in> set ?nn. j < length ?raters"
    using nearest_neighbors_props(1,2) [of "k m" "sim_scores m u i"] len by auto
  have "inj_on (\<lambda>j. ?raters ! j) (set ?nn)"
    using nn(2) r by (auto simp: inj_on_def nth_eq_iff_index_eq)
  then show ?thesis unfolding neighbors_def using nn(1) by (simp add: distinct_map)
qed

subsection \<open>A target without raters\<close>

lemma predict_no_raters:
  assumes init: "uuCF_init Y kk sf = Inr m0" and ws: "well_shaped sf"
    and u: "u < n_users m0" and i: "i < n_items m0"
    and none: "users_rated_item (fit m0) i = []"
  shows "\<exists>mus. mu (fit m0) = Some mus \<and> predict_rating (fit m0) u i = Inr (mus ! u)"
  using fitted_predict [OF init ws u i] neighbors_Nil [OF none, of u] by auto

lemma predict_out_of_range:
  assumes init: "uuCF_init Y kk sf = Inr m0" and ws: "well_shaped sf"
    and i: "n_items m0 \<le> i"
  shows "predict_rating (fit m0) u i = Inl IndexError"
proof -
  obtain mat sm where "Ybar (fit m0) = Some mat" "S (fit m0) = Some sm"
    using fit_S [of m0] by blast
  then show ?thesis
    using i by (simp add: predict_rating_def Let_def fit_fields)
qed

lemma gap_raters: "users_rated_item (fit gap_model) 1 = []"
  by (simp add: users_rated_item_eq fit_fields gap_model_def new_model_def gap_Y_def
      item_of_def user_of_def)

lemma gap_means:
  "mu (fit gap_model) = Some (user_means (rows gap_Y))" "user_means (rows gap_Y) ! 0 = 5"
  using user_means_nth [of 0 "rows gap_Y"]
  by (simp_all add: fit_fields gap_model_def new_model_def mean_rating_def gap_Y_def
      user_of_def rating_of_def)

text \<open>
  C1, as amended: for a target below \<open>n_items\<close> that nobody has rated, the prediction is
  the mean of the subject, returned as a number; no error is signalled.
\<close>

theorem unrated_target_returns_mean:
  assumes init: "uuCF_init Y kk sf = Inr m0" and ws: "well_shaped sf"
    and u: "u < n_users m0" and i: "i < n_items m0"
    and none: "\<forall>row \<in> set (rows Y). item_of row \<noteq> i"
  shows "\<exists>mus. mu (fit m0) = Some mus \<and> predict_rating (fit m0) u i = Inr (mus ! u)"
proof -
  have "users_rated_item (fit m0) i = []"
    using none by (simp add: users_rated_item_eq fit_fields init_fields [OF init] filter_empty_conv)
  then show ?thesis by (rule predict_no_raters [OF init ws u i])
qed

theorem unrated_target_returns_mean_witness:
  "\<exists>mus. mu (fit gap_model) = Some mus \<and> predict_rating (fit gap_model) 2 1 = Inr (mus ! 2)"
proof -
  have "2 < n_users gap_model" "1 < n_items gap_model"
    by (simp_all add: gap_model_def new_model_def)
  moreover have "\<forall>row \<in> set (rows gap_Y). item_of row \<noteq> 1"
    by (simp add: gap_Y_def item_of_def)
  ultimately show ?thesis
    using unrated_target_returns_mean [OF example_inits(3) well_shaped_cosine] by blast
qed

text \<open>
  Item 1 occurs in no row of \<open>gap_Y\<close>; the prediction for it is the mean 5 of user 0,
  returned as a number.
\<close>

theorem unrated_target_no_error:
  "uuCF_init gap_Y 40 cosine_similarity = Inr gap_model \<and>
   users_rated_item (fit gap_model) 1 = [] \<and>
   predict_rating (fit gap_model) 0 1 = Inr 5"
proof -
  have "0 < n_users gap_model" "1 < n_items gap_model"
    by (simp_all add: gap_model_def new_model_def)
  from predict_no_raters [OF example_inits(3) well_shaped_cosine this gap_raters]
  have "predict_rating (fit gap_model) 0 1 = Inr 5" by (simp add: gap_means)
  then show ?thesis using example_inits(3) gap_raters by simp
qed


subsection \<open>Recommendation\<close>

lemma collect_map:
  "(\<forall>x \<in> set xs. f x = Inr (g x)) \<Longrightarrow> collect (map f xs) = Inr (map g xs)"
  by (induction xs) simp_all

lemma unrated_items_props:
  "distinct (unrated_items m u)"
  "set (unrated_items m u) = {i. i < n_items m \<and> i \<notin> set (rated_items m u)}"
  by (auto simp: unrated_items_def)

lemma sorted_take_drop:
  assumes "sorted (map f xs)" "a \<in> set (take n xs)" "b \<in> set (drop n xs)"
  shows "f a \<le> f b"
proof -
  have "sorted (map f (take n xs) @ map f (drop n xs))"
    using assms(1) by (metis append_take_drop_id map_append)
  then show ?thesis using assms(2,3) by (auto simp: sorted_append)
qed


lemma collect_scored_items:
  "collect (map (scored m u) xs) = Inr ps \<Longrightarrow> map fst ps = xs"
proof (induction xs arbitrary: ps)
  case Nil
  then show ?case by simp
next
  case (Cons x xs)
  then show ?case
    by (auto simp: scored_def split: sum.splits)
qed

lemma collect_scored_values:
  "collect (map (scored m u) xs) = Inr ps \<Longrightarrow>
     \<forall>p \<in> set ps. predict_rating m u (fst p) = Inr (snd p)"
proof (induction xs arbitrary: ps)
  case Nil
  then show ?case by simp
next
  case (Cons x xs)
  then show ?case
    by (auto simp: scored_def split: sum.splits)
qed

lemma recommend_subset:
  assumes "recommend m u top_k = Inr items"
  shows "set items \<subseteq> set (unrated_items m u)"
proof -
  from assms obtain ps where ps: "collect (map (scored m u) (unrated_items m u)) = Inr ps"
    and items: "items = map fst (take top_k (sort_key (\<lambda>x. - snd x) ps))"
    by (auto simp: recommend_def split: sum.splits)
  have "set (take top_k (sort_key (\<lambda>x. - snd x) ps)) \<subseteq> set ps"
    using set_take_subset [of top_k "sort_key (\<lambda>x. - snd x) ps"] by simp
  then have "set items \<subseteq> set (map fst ps)" unfolding items by auto
  then show ?thesis using collect_scored_items [OF ps] by simp
qed

lemma recommend_returns:
  assumes init: "uuCF_init Y kk sf = Inr m0" and ws: "well_shaped sf"
    and u: "u < n_users m0"
  shows "\<exists>ps. collect (map (scored (fit m0) u) (unrated_items (fit m0) u)) = Inr ps \<and>
           recommend (fit m0) u top_k = Inr (map fst (take top_k (sort_key (\<lambda>x. - snd x) ps)))"
proof -
  let ?g = "\<lambda>i. (i, projr (predict_rating (fit m0) u i))"
  have "\<forall>i \<in> set (unrated_items (fit m0) u). scored (fit m0) u i = Inr (?g i)"
  proof
    fix i assume "i \<in> set (unrated_items (fit m0) u)"
    then have "i < n_items m0" by (simp add: unrated_items_props fit_fields)
    then obtain p where "predict_rating (fit m0) u i = Inr p"
      using fitted_predict [OF init ws u] by blast
    then show "scored (fit m0) u i = Inr (?g i)" by (simp add: scored_def)
  qed
  then have "collect (map (scored (fit m0) u) (unrated_items (fit m0) u))
               = Inr (map ?g (unrated_items (fit m0) u))"
    by (rule collect_map)
  then show ?thesis by (simp add: recommend_def)
qed

text \<open>
  C6: whatever \<open>recommend\<close> returns holds no item that the user has rated in the input, and
  for a user below \<open>n_users\<close> of a fitted model it does return a list.
\<close>

theorem recommend_excludes_rated:
  assumes init: "uuCF_init Y kk sf = Inr m0" and ws: "well_shaped sf"
  shows "(\<forall>items. recommend (fit m0) u top_k = Inr items \<longrightarrow>
            (\<forall>row \<in> set (rows Y). user_of row = u \<longrightarrow> item_of row \<notin> set items)) \<and>
         (u < n_users m0 \<longrightarrow> (\<exists>items. recommend (fit m0) u top_k = Inr items))"
proof (intro conjI allI impI ballI)
  fix items row
  assume r: "recommend (fit m0) u top_k = Inr items"
    and row: "row \<in> set (rows Y)" "user_of row = u"
  have "item_of row \<in> set (rated_items (fit m0) u)"
    using row by (force simp: rated_items_def fit_fields init_fields [OF init])
  then have "item_of row \<notin> set (unrated_items (fit m0) u)"
    by (simp add: unrated_items_props)
  then show "item_of row \<notin> set items" using recommend_subset [OF r] by blast
next
  assume "u < n_users m0"
  then show "\<exists>items. recommend (fit m0) u top_k = Inr items"
    using recommend_returns [OF init ws] by blast
qed


text \<open>
  C7: \<open>recommend\<close> returns \<open>min top_k |candidates|\<close> items; the prediction of a returned
  item is at least the prediction of every item returned after it and of every candidate
  that is not returned.
\<close>

theorem recommend_top_k_sorted:
  assumes init: "uuCF_init Y kk sf = Inr m0" and ws: "well_shaped sf"
    and u: "u < n_users m0"
  shows "\<exists>items. recommend (fit m0) u top_k = Inr items \<and>
           length items = min top_k (length (unrated_items (fit m0) u)) \<and>
           (\<forall>a b. a < b \<and> b < length items \<longrightarrow>
              (\<exists>pa pb. predict_rating (fit m0) u (items ! a) = Inr pa \<and>
                       predict_rating (fit m0) u (items ! b) = Inr pb \<and> pb \<le> pa)) \<and>
           (\<forall>x \<in> set items. \<forall>c \<in> set (unrated_items (fit m0) u). c \<notin> set items \<longrightarrow>
              (\<exists>px pc. predict_rating (fit m0) u x = Inr px \<and>
                       predict_rating (fit m0) u c = Inr pc \<and> pc \<le> px))"
proof -
  let ?m = "fit m0"
  let ?f = "\<lambda>x :: nat \<times> real. - snd x"
  obtain ps where ps: "collect (map (scored ?m u) (unrated_items ?m u)) = Inr ps"
    and rec: "recommend ?m u top_k = Inr (map fst (take top_k (sort_key ?f ps)))"
    using recommend_returns [OF init ws u] by blast
  let ?L = "sort_key ?f ps"
  let ?items = "map fst (take top_k ?L)"
  have fst_ps: "map fst ps = unrated_items ?m u" by (rule collect_scored_items [OF ps])
  have val: "\<forall>p \<in> set ?L. predict_rating ?m u (fst p) = Inr (snd p)"
    using collect_scored_values [OF ps] by simp
  have sorted: "sorted (map ?f ?L)" by (rule sorted_sort_key)
  have len: "length ?items = min top_k (length (unrated_items ?m u))"
    using arg_cong [OF fst_ps, of length] by simp
  have ord: "\<exists>pa pb. predict_rating ?m u (?items ! a) = Inr pa \<and>
                     predict_rating ?m u (?items ! b) = Inr pb \<and> pb \<le> pa"
    if "a < b" "b < length ?items" for a b
  proof -
    have b: "b < top_k" "b < length ?L" using that(2) by simp_all
    have a: "a < top_k" "a < length ?L" using that(1) b by simp_all
    have "?f (?L ! a) \<le> ?f (?L ! b)"
      using sorted that(1) b(2) a(2) by (simp add: sorted_iff_nth_mono_less)
    moreover have "?items ! a = fst (?L ! a)" "?items ! b = fst (?L ! b)"
      using a b by simp_all
    moreover have "?L ! a \<in> set ?L" "?L ! b \<in> set ?L"
      using a(2) b(2) by (simp_all only: nth_mem)
    then have "predict_rating ?m u (fst (?L ! a)) = Inr (snd (?L ! a))"
      "predict_rating ?m u (fst (?L ! b)) = Inr (snd (?L ! b))"
      using val by blast+
    ultimately show ?thesis by simp
  qed
  have rest: "\<exists>px pc. predict_rating ?m u x = Inr px \<and>
                      predict_rating ?m u c = Inr pc \<and> pc \<le> px"
    if "x \<in> set ?items" "c \<in> set (unrated_items ?m u)" "c \<notin> set ?items" for x c
  proof -
    have "x \<in> fst ` set (take top_k ?L)" using that(1) by simp
    then obtain p where p: "p \<in> set (take top_k ?L)" "x = fst p" by blast
    have "c \<in> fst ` set ?L" using that(2) fst_ps [symmetric] by simp
    then obtain q where q: "q \<in> set ?L" "c = fst q" by blast
    have "q \<notin> set (take top_k ?L)" using that(3) q(2) by auto
    moreover have "set ?L = set (take top_k ?L) \<union> set (drop top_k ?L)"
      by (metis append_take_drop_id set_append)
    ultimately have "q \<in> set (drop top_k ?L)" using q(1) by blast
    then have "?f p \<le> ?f q" using sorted_take_drop [OF sorted p(1)] by blast
    moreover have "p \<in> set ?L" using p(1) by (rule in_set_takeD)
    ultimately show ?thesis using val p(2) q by auto
  qed
  show ?thesis using rec len ord rest by blast
qed


theorem recommend_excludes_rated_witness:
  "\<exists>items. recommend (fit scenario_model) 2 10 = Inr items \<and> 0 \<notin> set items"
proof -
  have row: "(2, 0, 1) \<in> set (rows scenario_Y)" "user_of (2, 0, 1 :: real) = 2"
    "item_of (2, 0, 1 :: real) = 0"
    by (simp_all add: scenario_Y_def user_of_def item_of_def)
  note c = recommend_excludes_rated [OF example_inits(2) well_shaped_cosine, of 2 10]
  have "0 \<notin> set items" if "recommend (fit scenario_model) 2 10 = Inr items" for items
    using c that row by (metis (no_types))
  then show ?thesis using c scenario_shape(1) by blast
qed

subsection \<open>Cosine similarity\<close>

lemma dot_commute: "dot x y = dot y x"
proof -
  have "map2 (\<lambda>a b. a * b) x y = map2 (\<lambda>a b. a * b) y x"
    by (induction x arbitrary: y) (auto simp: zip_Cons1 split: list.splits)
  then show ?thesis by (simp add: dot_def)
qed

lemma cosine_commute: "cosine x y = cosine y x"
  by (simp add: cosine_def dot_commute [of x y] mult.commute disj_commute)

lemma dot_self_nonneg: "0 \<le> dot x x"
  unfolding dot_def by (induction x) simp_all

lemma dot_self_zero: "dot x x = 0 \<longleftrightarrow> (\<forall>e \<in> set x. e = 0)"
proof (induction x)
  case Nil
  show ?case by (simp add: dot_def)
next
  case (Cons a x)
  have "dot (a # x) (a # x) = a * a + dot x x" by (simp add: dot_def)
  moreover have "0 \<le> a * a" by simp
  ultimately have "dot (a # x) (a # x) = 0 \<longleftrightarrow> a = 0 \<and> dot x x = 0"
    using dot_self_nonneg [of x] by (auto simp: add_nonneg_eq_0_iff)
  then show ?case using Cons.IH by auto
qed

lemma norm2_zero: "norm2 x = 0 \<longleftrightarrow> (\<forall>e \<in> set x. e = 0)"
  by (simp add: norm2_def dot_self_zero)

lemma cosine_self: "cosine x x = (if \<forall>e \<in> set x. e = 0 then 0 else 1)"
proof (cases "norm2 x = 0")
  case True
  then show ?thesis by (simp add: cosine_def norm2_zero)
next
  case False
  have "norm2 x * norm2 x = dot x x"
    unfolding norm2_def using dot_self_nonneg [of x] by simp
  moreover have "dot x x \<noteq> 0" using False by (simp add: norm2_def)
  ultimately have "cosine x x = 1" using False by (simp add: cosine_def)
  then show ?thesis using False by (simp add: norm2_zero)
qed

lemma cosine_np_finite: "cosine_np x y = Fin (cosine x y)"
  by (simp add: cosine_np_def cosine_def np_divide_def)

lemma fit_cosine_entry:
  assumes "sim_func m = cosine_similarity" "i < n_users m" "j < n_users m"
  shows "\<exists>mat sm. Ybar (fit m) = Some mat \<and> S (fit m) = Some sm \<and>
           sm ! i ! j = cosine (column mat (n_items m) i) (column mat (n_items m) j)"
proof -
  obtain mat where mat: "Ybar (fit m) = Some mat"
    and sm: "S (fit m) = Some (cosine_similarity (transpose_dense mat (n_items m) (n_users m))
                                      (transpose_dense mat (n_items m) (n_users m)))"
    using fit_S [of m] assms(1) by auto
  have "cosine_similarity (transpose_dense mat (n_items m) (n_users m))
          (transpose_dense mat (n_items m) (n_users m)) ! i ! j
        = cosine (column mat (n_items m) i) (column mat (n_items m) j)"
    using assms(2,3) by (simp add: cosine_similarity_def transpose_dense_def)
  then show ?thesis using mat sm by simp
qed


text \<open>
  C8: with the default similarity function the similarity matrix of a fitted model is
  symmetric.
\<close>

theorem similarity_symmetric:
  assumes init: "uuCF_init Y kk cosine_similarity = Inr m0"
    and i: "i < n_users m0" and j: "j < n_users m0"
  shows "\<exists>sm. S (fit m0) = Some sm \<and> S (fit_book m0) = Some sm \<and> sm ! i ! j = sm ! j ! i"
proof -
  have sf: "sim_func m0 = cosine_similarity" by (rule init_fields(4) [OF init])
  obtain mat sm where "Ybar (fit m0) = Some mat" and sm: "S (fit m0) = Some sm"
    and ij: "sm ! i ! j = cosine (column mat (n_items m0) i) (column mat (n_items m0) j)"
    using fit_cosine_entry [OF sf i j] by blast
  moreover obtain mat' sm' where "Ybar (fit m0) = Some mat'" "S (fit m0) = Some sm'"
    and "sm' ! j ! i = cosine (column mat' (n_items m0) j) (column mat' (n_items m0) i)"
    using fit_cosine_entry [OF sf j i] by blast
  ultimately have "sm ! i ! j = sm ! j ! i" by (simp add: cosine_commute)
  then show ?thesis using sm init_fit_book [OF init] by simp
qed

theorem similarity_symmetric_witness:
  "\<exists>sm. S (fit scenario_model) = Some sm \<and> S (fit_book scenario_model) = Some sm \<and>
     sm ! 0 ! 2 = sm ! 2 ! 0"
proof -
  have "0 < n_users scenario_model" "2 < n_users scenario_model"
    by (simp_all add: scenario_model_def new_model_def)
  from similarity_symmetric [OF example_inits(2) this] show ?thesis .
qed

text \<open>
  C9: with the default similarity function the similarity of a subject with itself is 1
  when its centred rating vector has a non-zero entry and 0 when it has none, and the
  division of every entry of the matrix, done as numpy divides, gives the finite number that
  is stored: the zero norm is never divided by.
\<close>

theorem self_similarity:
  assumes init: "uuCF_init Y kk cosine_similarity = Inr m0"
    and s: "s < n_users m0"
  shows "\<exists>mat sm. Ybar (fit m0) = Some mat \<and> S (fit m0) = Some sm \<and>
           Ybar (fit_book m0) = Some mat \<and> S (fit_book m0) = Some sm \<and>
           sm ! s ! s = (if \<forall>e \<in> set (column mat (n_items m0) s). e = 0 then 0 else 1) \<and>
           (\<forall>i < n_users m0. \<forall>j < n_users m0.
              cosine_np (column mat (n_items m0) i) (column mat (n_items m0) j) = Fin (sm ! i ! j))"
proof -
  have sf: "sim_func m0 = cosine_similarity" by (rule init_fields(4) [OF init])
  obtain mat sm where mat: "Ybar (fit m0) = Some mat" and sm: "S (fit m0) = Some sm"
    using fit_S [of m0] by blast
  have entry: "sm ! i ! j = cosine (column mat (n_items m0) i) (column mat (n_items m0) j)"
    if "i < n_users m0" "j < n_users m0" for i j
    using fit_cosine_entry [OF sf that] mat sm by auto
  have "sm ! s ! s = (if \<forall>e \<in> set (column mat (n_items m0) s). e = 0 then 0 else 1)"
    using entry [OF s s] by (simp only: cosine_self)
  moreover have "\<forall>i < n_users m0. \<forall>j < n_users m0.
     cosine_np (column mat (n_items m0) i) (column mat (n_items m0) j) = Fin (sm ! i ! j)"
    using entry by (simp add: cosine_np_finite)
  ultimately show ?thesis using mat sm init_fit_book [OF init] by simp
qed

lemma fit_entry_of:
  assumes "Ybar (fit m) = Some mat"
  shows "csr_get mat t s =
       sum_list (map (\<lambda>row. setitem_cast (Y_data m) (rating_of row - user_means (rows (Y_data m)) ! s))
                   (filter (\<lambda>row. item_of row = t \<and> user_of row = s) (rows (Y_data m))))"
  using fit_entry [of m t s] assms by auto

lemma scenario_means:
  "user_means (rows scenario_Y) ! 0 = 4" "user_means (rows scenario_Y) ! 1 = 4"
proof -
  have a: "0 \<le> amax (map user_of (rows scenario_Y))" "1 \<le> amax (map user_of (rows scenario_Y))"
    by (simp_all add: amax_def scenario_Y_def user_of_def)
  have m: "mean_rating (rows scenario_Y) 0 = 4" "mean_rating (rows scenario_Y) 1 = 4"
    by (simp_all add: mean_rating_def scenario_Y_def user_of_def rating_of_def)
  show "user_means (rows scenario_Y) ! 0 = 4"
    using user_means_nth [OF a(1)] by (simp only: m)
  show "user_means (rows scenario_Y) ! 1 = 4"
    using user_means_nth [OF a(2)] by (simp only: m)
qed

theorem self_similarity_witness:
  "\<exists>sm. S (fit scenario_model) = Some sm \<and> sm ! 0 ! 0 = 1 \<and> sm ! 1 ! 1 = 0"
proof -
  have n: "0 < n_users scenario_model" "1 < n_users scenario_model"
    by (simp_all add: scenario_model_def new_model_def)
  have Y: "Y_data scenario_model = scenario_Y" "n_items scenario_model = 2"
    by (simp_all add: scenario_model_def new_model_def)
  obtain mat sm where mat: "Ybar (fit scenario_model) = Some mat"
    and sm: "S (fit scenario_model) = Some sm"
    and s0: "sm ! 0 ! 0 = (if \<forall>e \<in> set (column mat (n_items scenario_model) 0). e = 0 then 0 else 1)"
    using self_similarity [OF example_inits(2) n(1)] by blast
  obtain mat' sm' where "Ybar (fit scenario_model) = Some mat'"
    and "S (fit scenario_model) = Some sm'"
    and "sm' ! 1 ! 1 = (if \<forall>e \<in> set (column mat' (n_items scenario_model) 1). e = 0 then 0 else 1)"
    using self_similarity [OF example_inits(2) n(2)] by blast
  then have s1: "sm ! 1 ! 1 = (if \<forall>e \<in> set (column mat (n_items scenario_model) 1). e = 0 then 0 else 1)"
    using mat sm by simp
  have e: "csr_get mat 0 0 = 1" "csr_get mat 0 1 = 0" "csr_get mat 1 1 = 0"
    unfolding fit_entry_of [OF mat] Y scenario_means
    by (simp_all add: scenario_Y_def item_of_def user_of_def rating_of_def)
  have "column mat 2 0 = [csr_get mat 0 0, csr_get mat 1 0]"
    "column mat 2 1 = [csr_get mat 0 1, csr_get mat 1 1]"
    by (simp_all add: column_def numeral_2_eq_2)
  then have "sm ! 0 ! 0 = 1" "sm ! 1 ! 1 = 0"
    using s0 s1 e unfolding Y by simp_all
  then show ?thesis using sm by simp
qed

subsection \<open>A worked example with one neighbour\<close>

text \<open>
  \<open>pick_model\<close> has \<open>k = 1\<close>.  For user 2, item 2 has the two raters 0 and 1 with the
  similarities 1/2 and -1/2, so that only user 0 is selected; of the three candidates 2, 3
  and 4 of user 2 the two with the highest predictions are recommended.
\<close>

lemma pick_init: "uuCF_init pick_Y 1 cosine_similarity = Inr pick_model"
  by (simp add: uuCF_init_def new_model_def amax_def user_of_def item_of_def pick_Y_def
      pick_model_def)

lemma pick_fields:
  "Y_data pick_model = pick_Y" "n_users pick_model = 4" "n_items pick_model = 5"
  "k pick_model = 1" "sim_func pick_model = cosine_similarity"
  by (simp_all add: pick_model_def new_model_def)

lemma upt_5: "[0..<5] = [0, 1, 2, 3, 4]"
  by (simp add: upt_rec)

lemma pick_means: "user_means (rows pick_Y) ! s = 4" if "s < 4"
proof -
  have "s \<le> amax (map user_of (rows pick_Y))"
    using that by (simp add: amax_def pick_Y_def user_of_def)
  then have "user_means (rows pick_Y) ! s = mean_rating (rows pick_Y) s"
    by (rule user_means_nth)
  moreover have "s = 0 \<or> s = 1 \<or> s = 2 \<or> s = 3" using that by auto
  ultimately show ?thesis
    by (auto simp: mean_rating_def pick_Y_def user_of_def rating_of_def)
qed


lemma pick_means_at:
  "user_means (rows pick_Y) ! 0 = 4" "user_means (rows pick_Y) ! 1 = 4"
  "user_means (rows pick_Y) ! 2 = 4" "user_means (rows pick_Y) ! 3 = 4"
  using pick_means [of 0] pick_means [of 1] pick_means [of 2] pick_means [of 3] by simp_all

lemma pick_columns:
  assumes mat: "Ybar (fit pick_model) = Some mat"
  shows "column mat 5 0 = [1, 0, - 1, 0, 0]" "column mat 5 1 = [0, 1, - 1, 0, 0]"
    "column mat 5 2 = [1, - 1, 0, 0, 0]" "column mat 5 3 = [2, 0, 0, 0, - 2]"
  unfolding column_def upt_5 list.map fit_entry_of [OF mat] pick_fields pick_means_at
  by (simp_all add: pick_Y_def item_of_def user_of_def rating_of_def)

lemma sqrt_2_8: "sqrt 2 * sqrt 8 = 4"
proof -
  have "sqrt 2 * sqrt 8 = sqrt (4 ^ 2)" by (simp add: real_sqrt_mult [symmetric])
  then show ?thesis by (simp only: real_sqrt_abs)
qed

lemma pick_cosines:
  "cosine [1, - 1, 0, 0, 0] [1, 0, - 1, 0, 0] = 1 / 2"
  "cosine [1, - 1, 0, 0, 0] [0, 1, - 1, 0, 0] = - (1 / 2)"
  "cosine [1, - 1, 0, 0, 0] [2, 0, 0, 0, - 2] = 1 / 2"
  by (simp_all add: cosine_def norm2_def dot_def sqrt_2_8)


lemma pick_S:
  assumes sm: "S (fit pick_model) = Some sm"
  shows "sm ! 2 ! 0 = 1 / 2" "sm ! 2 ! 1 = - (1 / 2)" "sm ! 2 ! 3 = 1 / 2"
proof -
  obtain mat where mat: "Ybar (fit pick_model) = Some mat" using fit_S [of pick_model] by blast
  have e: "sm ! 2 ! j = cosine (column mat 5 2) (column mat 5 j)" if "j < 4" for j
    using fit_cosine_entry [of pick_model 2 j] that mat sm by (auto simp: pick_fields)
  have "sm ! 2 ! 0 = cosine (column mat 5 2) (column mat 5 0)" by (rule e) simp
  then show "sm ! 2 ! 0 = 1 / 2" by (simp only: pick_columns [OF mat] pick_cosines)
  have "sm ! 2 ! 1 = cosine (column mat 5 2) (column mat 5 1)" by (rule e) simp
  then show "sm ! 2 ! 1 = - (1 / 2)" by (simp only: pick_columns [OF mat] pick_cosines)
  have "sm ! 2 ! 3 = cosine (column mat 5 2) (column mat 5 3)" by (rule e) simp
  then show "sm ! 2 ! 3 = 1 / 2" by (simp only: pick_columns [OF mat] pick_cosines)
qed

lemma pick_raters:
  "users_rated_item (fit pick_model) 2 = [0, 1]"
  "users_rated_item (fit pick_model) 3 = []"
  "users_rated_item (fit pick_model) 4 = [3]"
  by (simp_all add: users_rated_item_eq fit_fields pick_fields pick_Y_def item_of_def user_of_def)

lemma pick_selected:
  "nearest_neighbors 1 [1 / 2, - (1 / 2)] = [0]"
  "nearest_neighbors 1 [1 / 2] = [0]"
  by (simp_all add: nearest_neighbors_def take_last_def argsort_def numeral_2_eq_2)


lemma pick_entries:
  assumes mat: "Ybar (fit pick_model) = Some mat"
  shows "csr_get mat 2 0 = - 1" "csr_get mat 2 1 = - 1" "csr_get mat 4 3 = - 2"
  unfolding fit_entry_of [OF mat] pick_fields pick_means_at
  by (simp_all add: pick_Y_def item_of_def user_of_def rating_of_def)

lemma pick_mu:
  assumes "mu (fit pick_model) = Some mus"
  shows "mus ! 2 = 4"
  using assms pick_means_at(3) by (simp add: fit_fields pick_fields)



lemma pick_neighbors:
  "neighbors (fit pick_model) 2 2 = [0]" "neighbors (fit pick_model) 2 3 = []"
  "neighbors (fit pick_model) 2 4 = [3]"
proof -
  obtain sm where sm: "S (fit pick_model) = Some sm" using fit_S [of pick_model] by blast
  have k1: "k (fit pick_model) = 1" by (simp add: fit_fields pick_fields)
  show "neighbors (fit pick_model) 2 2 = [0]"
    unfolding neighbors_def fitted_sim_scores [OF sm] k1 pick_raters list.map pick_S [OF sm]
      pick_selected by simp
  show "neighbors (fit pick_model) 2 3 = []"
    by (rule neighbors_Nil) (rule pick_raters)
  show "neighbors (fit pick_model) 2 4 = [3]"
    unfolding neighbors_def fitted_sim_scores [OF sm] k1 pick_raters list.map pick_S [OF sm]
      pick_selected by simp
qed

lemma pick_predictions:
  "predict_rating (fit pick_model) 2 2 = Inr (- 1 * (1 / 2) / (\<bar>1 / 2\<bar> + 1 / 10 ^ 8) + 4)"
  "predict_rating (fit pick_model) 2 3 = Inr 4"
  "predict_rating (fit pick_model) 2 4 = Inr (- 2 * (1 / 2) / (\<bar>1 / 2\<bar> + 1 / 10 ^ 8) + 4)"
proof -
  have u: "2 < n_users pick_model" by (simp add: pick_fields)
  have p: "\<exists>sm mat mus. S (fit pick_model) = Some sm \<and> Ybar (fit pick_model) = Some mat \<and>
           mu (fit pick_model) = Some mus \<and>
           predict_rating (fit pick_model) 2 i =
             Inr (sum_list (map (\<lambda>n. csr_get mat i n * (sm ! 2 ! n)) (neighbors (fit pick_model) 2 i))
                  / (sum_list (map (\<lambda>n. \<bar>sm ! 2 ! n\<bar>) (neighbors (fit pick_model) 2 i)) + eps)
                + mus ! 2)" if "i < 5" for i
    using fitted_predict [OF pick_init well_shaped_cosine u, of i] that by (simp add: pick_fields)
  show "predict_rating (fit pick_model) 2 2 = Inr (- 1 * (1 / 2) / (\<bar>1 / 2\<bar> + 1 / 10 ^ 8) + 4)"
    using p [of 2] unfolding pick_neighbors eps_def
    by (auto simp: pick_entries pick_S pick_mu)
  show "predict_rating (fit pick_model) 2 3 = Inr 4"
    using p [of 3] unfolding pick_neighbors eps_def
    by (auto simp: pick_mu)
  show "predict_rating (fit pick_model) 2 4 = Inr (- 2 * (1 / 2) / (\<bar>1 / 2\<bar> + 1 / 10 ^ 8) + 4)"
    using p [of 4] unfolding pick_neighbors eps_def
    by (auto simp: pick_entries pick_S pick_mu)
qed

lemma pick_unrated: "unrated_items (fit pick_model) 2 = [2, 3, 4]"
  by (simp add: unrated_items_def rated_items_def fit_fields pick_fields pick_Y_def
      item_of_def user_of_def upt_5)

lemma pick_recommend: "recommend (fit pick_model) 2 2 = Inr [3, 2]"
  unfolding recommend_def pick_unrated
  by (simp add: scored_def pick_predictions)


theorem recommend_top_k_sorted_witness:
  "unrated_items (fit pick_model) 2 = [2, 3, 4] \<and>
   recommend (fit pick_model) 2 2 = Inr [3, 2] \<and>
   predict_rating (fit pick_model) 2 3 = Inr 4 \<and>
   predict_rating (fit pick_model) 2 2 = Inr (- 1 * (1 / 2) / (\<bar>1 / 2\<bar> + 1 / 10 ^ 8) + 4) \<and>
   predict_rating (fit pick_model) 2 4 = Inr (- 2 * (1 / 2) / (\<bar>1 / 2\<bar> + 1 / 10 ^ 8) + 4) \<and>
   - 1 * (1 / 2) / (\<bar>1 / 2\<bar> + 1 / 10 ^ 8) + 4 \<le> (4 :: real) \<and>
   - 2 * (1 / 2) / (\<bar>1 / 2\<bar> + 1 / 10 ^ 8) + 4 \<le> (- 1 * (1 / 2) / (\<bar>1 / 2\<bar> + 1 / 10 ^ 8) + 4 :: real)"
proof -
  let ?m = "fit pick_model"
  let ?p2 = "- 1 * (1 / 2) / (\<bar>1 / 2\<bar> + 1 / 10 ^ 8) + 4 :: real"
  let ?p4 = "- 2 * (1 / 2) / (\<bar>1 / 2\<bar> + 1 / 10 ^ 8) + 4 :: real"
  have u: "2 < n_users pick_model" by (simp add: pick_fields)
  obtain items where r: "recommend ?m 2 2 = Inr items"
    and ord: "\<forall>a b. a < b \<and> b < length items \<longrightarrow>
              (\<exists>pa pb. predict_rating ?m 2 (items ! a) = Inr pa \<and>
                       predict_rating ?m 2 (items ! b) = Inr pb \<and> pb \<le> pa)"
    and rest: "\<forall>x \<in> set items. \<forall>c \<in> set (unrated_items ?m 2). c \<notin> set items \<longrightarrow>
              (\<exists>px pc. predict_rating ?m 2 x = Inr px \<and>
                       predict_rating ?m 2 c = Inr pc \<and> pc \<le> px)"
    using recommend_top_k_sorted [OF pick_init well_shaped_cosine u, of 2] by blast
  have items: "items = [3, 2]" using r pick_recommend by simp
  have "(0::nat) < 1 \<and> 1 < length items" unfolding items by simp
  then have "\<exists>pa pb. predict_rating ?m 2 (items ! 0) = Inr pa \<and>
                 predict_rating ?m 2 (items ! 1) = Inr pb \<and> pb \<le> pa"
    using ord by blast
  moreover have "items ! 0 = 3" "items ! 1 = 2" unfolding items by simp_all
  ultimately have "\<exists>pa pb. predict_rating ?m 2 3 = Inr pa \<and>
                 predict_rating ?m 2 2 = Inr pb \<and> pb \<le> pa"
    by simp
  then have first: "?p2 \<le> 4" unfolding pick_predictions by blast
  have "2 \<in> set items" "4 \<in> set (unrated_items ?m 2)" "4 \<notin> set items"
    unfolding items pick_unrated by simp_all
  then have "\<exists>px pc. predict_rating ?m 2 2 = Inr px \<and> predict_rating ?m 2 4 = Inr pc \<and> pc \<le> px"
    using rest by blast
  then have second: "?p4 \<le> ?p2" unfolding pick_predictions by blast
  show ?thesis using pick_unrated pick_recommend pick_predictions first second by blast
qed

end
